theory Spec2Isabelle
  imports Main "HOL-Library.AList"
begin


section \<open>The environment: paths and the file system\<close>

text \<open>
  The module \<^verbatim>\<open>src/utils/temp-directory.js\<close> talks to the file system through
  \<^verbatim>\<open>fs.openSync\<close>, \<^verbatim>\<open>fs.closeSync\<close>, \<^verbatim>\<open>fs.unlinkSync\<close>, \<^verbatim>\<open>readDir\<close>, \<^verbatim>\<open>ensureDir\<close> and
  \<^verbatim>\<open>tmp.tmpNameSync\<close>. The file system is a list of nodes keyed by their absolute path, in
  the order a directory listing enumerates them. A file remembers the process that
  created it, so that "this process created the marker" can be said of a state. The set
  \<open>denied\<close> holds the system calls the environment refuses (permissions, full disk, ...):
  it is how an I/O failure other than "exists" or "missing" enters the model.
\<close>

datatype error = EEXIST | ENOENT | ENOTDIR | EISDIR | EACCES | TmpNameError | TypeError

datatype node = Dir | File nat

datatype syscall = Open string | Unlink string | Mkdir string | Readdir string

record world =
  nodes :: "(string \<times> node) list"
  denied :: "syscall set"

definition node_at :: "world \<Rightarrow> string \<Rightarrow> node option" where
  "node_at w p = map_of (nodes w) p"

text \<open>
  \<^verbatim>\<open>path.join(a, b)\<close> on POSIX for a normalised directory \<open>a\<close> and a single segment \<open>b\<close>
  (an entry name of a listing, the lock file name, a generated name): the only way the
  module calls it.
\<close>

definition path_join :: "string \<Rightarrow> string \<Rightarrow> string" where
  "path_join a b = a @ ''/'' @ b"

text \<open>\<^verbatim>\<open>path.basename(p)\<close> on POSIX: the last segment, trailing separators dropped.\<close>

definition basename :: "string \<Rightarrow> string" where
  "basename p =
     rev (takeWhile (\<lambda>c. c \<noteq> CHR ''/'') (dropWhile (\<lambda>c. c = CHR ''/'') (rev p)))"

text \<open>\<^verbatim>\<open>String.prototype.startsWith\<close>.\<close>

definition startsWith :: "string \<Rightarrow> string \<Rightarrow> bool" where
  "startsWith s pre = (take (length pre) s = pre)"

text \<open>The directory a path lies in: all of it before its last separator.\<close>

definition parent_of :: "string \<Rightarrow> string" where
  "parent_of p = rev (drop 1 (dropWhile (\<lambda>c. c \<noteq> CHR ''/'') (rev p)))"

text \<open>
  \<^verbatim>\<open>fs.openSync(p, 'wx')\<close>: create the file \<open>p\<close> for writing, failing if anything exists
  at \<open>p\<close>. The descriptor it returns is only passed to \<^verbatim>\<open>fs.closeSync\<close>, which has no
  effect on the nodes and is taken to succeed on a descriptor that was just opened.
\<close>

definition openSync_wx :: "nat \<Rightarrow> string \<Rightarrow> world \<Rightarrow> error + world" where
  "openSync_wx me p w =
     (case node_at w (parent_of p) of
        None \<Rightarrow> Inl ENOENT
      | Some (File _) \<Rightarrow> Inl ENOTDIR
      | Some Dir \<Rightarrow>
          if node_at w p \<noteq> None then Inl EEXIST
          else if Open p \<in> denied w then Inl EACCES
          else Inr (w\<lparr>nodes := nodes w @ [(p, File me)]\<rparr>))"

text \<open>\<^verbatim>\<open>fs.unlinkSync(p)\<close>: remove the file \<open>p\<close>.\<close>

definition unlinkSync :: "string \<Rightarrow> world \<Rightarrow> error + world" where
  "unlinkSync p w =
     (case node_at w p of
        None \<Rightarrow> Inl ENOENT
      | Some Dir \<Rightarrow> Inl EISDIR
      | Some (File _) \<Rightarrow>
          if Unlink p \<in> denied w then Inl EACCES
          else Inr (w\<lparr>nodes := filter (\<lambda>(q, n). q \<noteq> p) (nodes w)\<rparr>))"

text \<open>The entries directly under a directory \<open>d\<close>, by name, in listing order.\<close>

definition is_entry_of :: "string \<Rightarrow> string \<Rightarrow> bool" where
  "is_entry_of d p =
     (take (length d + 1) p = d @ ''/'' \<and> drop (length d + 1) p \<noteq> [] \<and>
      CHR ''/'' \<notin> set (drop (length d + 1) p))"

definition entries :: "world \<Rightarrow> string \<Rightarrow> string list" where
  "entries w d = map (\<lambda>(p, n). drop (length d + 1) p) (filter (\<lambda>(p, n). is_entry_of d p) (nodes w))"

text \<open>
  Modelled from the spec: \<^verbatim>\<open>readDir\<close> and \<^verbatim>\<open>ensureDir\<close> are imported from
  \<^verbatim>\<open>src/utils/promisified-functions\<close>, which is not among the sources. The spec has
  "List entries directly under Pool Root" and "Ensure Pool Root exists (idempotent
  directory creation)". Ancestors of a directory that \<open>ensureDir\<close> creates are not tracked.
\<close>

definition readDir :: "string \<Rightarrow> world \<Rightarrow> error + string list" where
  "readDir d w =
     (case node_at w d of
        None \<Rightarrow> Inl ENOENT
      | Some (File _) \<Rightarrow> Inl ENOTDIR
      | Some Dir \<Rightarrow> if Readdir d \<in> denied w then Inl EACCES else Inr (entries w d))"

definition ensureDir :: "string \<Rightarrow> world \<Rightarrow> error + world" where
  "ensureDir d w =
     (case node_at w d of
        Some Dir \<Rightarrow> Inr w
      | Some (File _) \<Rightarrow> Inl EEXIST
      | None \<Rightarrow>
          if Mkdir d \<in> denied w then Inl EACCES
          else Inr (w\<lparr>nodes := nodes w @ [(d, Dir)]\<rparr>))"


section \<open>The process: objects, the registry and the module constants\<close>

text \<open>
  \<^verbatim>\<open>class LockFile\<close> has the one field \<^verbatim>\<open>path\<close> (here \<open>lock_path\<close>); \<^verbatim>\<open>class TempDirectory\<close>
  has \<^verbatim>\<open>namePrefix\<close>, \<^verbatim>\<open>path\<close> and \<^verbatim>\<open>lockFile\<close> (\<^verbatim>\<open>null\<close> is \<open>None\<close>). \<^verbatim>\<open>TempDirectory\<close>
  objects live in a heap and are named by references, since the registry
  \<^verbatim>\<open>USED_TEMP_DIRS\<close> stores the objects themselves. The registry is an association list
  in insertion order, the order \<^verbatim>\<open>Object.values\<close> enumerates. \<open>rng\<close> and \<open>seed\<close> are the
  random source of \<^verbatim>\<open>tmp\<close>; \<open>pid\<close> identifies the process; \<open>fs\<close> is the file system the
  process sees. Calls of \<^verbatim>\<open>DEBUG_LOGGER\<close> have no effect on any of this and are left out.
\<close>

record LockFile =
  lock_path :: string

record TempDirectory =
  namePrefix :: string
  path :: string
  lockFile :: "LockFile option"

record state =
  pid :: nat
  heap :: "nat \<Rightarrow> TempDirectory option"
  next_ref :: nat
  USED_TEMP_DIRS :: "(string \<times> nat) list"
  rng :: "nat \<Rightarrow> string"
  seed :: nat
  fs :: world

type_synonym 'a result = "(error + 'a) \<times> state"

definition os_tmpdir :: string where
  "os_tmpdir = ''/tmp''"

definition TESTCAFE_TMP_DIRS_ROOT :: string where
  "TESTCAFE_TMP_DIRS_ROOT = path_join os_tmpdir ''testcafe-tmp''"

definition LOCKFILE_NAME :: string where
  "LOCKFILE_NAME = ''.testcafe-lockfile''"


section \<open>class LockFile\<close>

definition LockFile_new :: "string \<Rightarrow> LockFile" where
  "LockFile_new dirPath = \<lparr>lock_path = path_join dirPath LOCKFILE_NAME\<rparr>"

text \<open>
  \<^verbatim>\<open>init\<close>: the \<^verbatim>\<open>try\<close> block opens with \<^verbatim>\<open>'wx'\<close>, closes and returns \<^verbatim>\<open>true\<close>; the \<^verbatim>\<open>catch\<close>
  block logs and returns \<^verbatim>\<open>false\<close>.
\<close>

definition LockFile_init :: "LockFile \<Rightarrow> state \<Rightarrow> bool result" where
  "LockFile_init this st =
     (case openSync_wx (pid st) (lock_path this) (fs st) of
        Inr w \<Rightarrow> (Inr True, st\<lparr>fs := w\<rparr>)
      | Inl e \<Rightarrow> (Inr False, st))"

text \<open>\<^verbatim>\<open>dispose\<close>: the \<^verbatim>\<open>try\<close> block unlinks; the \<^verbatim>\<open>catch\<close> block only logs.\<close>

definition LockFile_dispose :: "LockFile \<Rightarrow> state \<Rightarrow> unit result" where
  "LockFile_dispose this st =
     (case unlinkSync (lock_path this) (fs st) of
        Inr w \<Rightarrow> (Inr (), st\<lparr>fs := w\<rparr>)
      | Inl e \<Rightarrow> (Inr (), st))"


section \<open>class TempDirectory\<close>

text \<open>
  \<^verbatim>\<open>USED_TEMP_DIRS\<close> is created by the object literal \<^verbatim>\<open>{}\<close>, so reading a property
  that is not its own finds the members of \<^verbatim>\<open>Object.prototype\<close>, all of them truthy.
  \<open>registered reg k\<close> is the truth value of \<^verbatim>\<open>USED_TEMP_DIRS[k]\<close>; the values stored by
  \<^verbatim>\<open>init\<close> are objects, hence truthy.
\<close>

definition Object_prototype_keys :: "string list" where
  "Object_prototype_keys =
     [''constructor'', ''__defineGetter__'', ''__defineSetter__'', ''hasOwnProperty'',
      ''__lookupGetter__'', ''__lookupSetter__'', ''isPrototypeOf'',
      ''propertyIsEnumerable'', ''toString'', ''valueOf'', ''__proto__'',
      ''toLocaleString'']"

definition registered :: "(string \<times> nat) list \<Rightarrow> string \<Rightarrow> bool" where
  "registered reg k = (map_of reg k \<noteq> None \<or> k \<in> set Object_prototype_keys)"

text \<open>Sequencing of two steps, the second skipped when the first throws or rejects.\<close>

definition and_then :: "'a result \<Rightarrow> ('a \<Rightarrow> state \<Rightarrow> 'b result) \<Rightarrow> 'b result" where
  "and_then m f = (case m of (Inl e, st) \<Rightarrow> (Inl e, st) | (Inr x, st) \<Rightarrow> f x st)"

text \<open>A file system call made by the process: its effect on \<open>fs\<close>, or its error.\<close>

definition on_fs :: "(world \<Rightarrow> error + world) \<Rightarrow> state \<Rightarrow> unit result" where
  "on_fs call st = (case call (fs st) of Inl e \<Rightarrow> (Inl e, st) | Inr w \<Rightarrow> (Inr (), st\<lparr>fs := w\<rparr>))"

text \<open>Reading \<^verbatim>\<open>this\<close>: a method called on a reference that names no object throws.\<close>

definition deref :: "nat \<Rightarrow> state \<Rightarrow> TempDirectory result" where
  "deref this st = (case heap st this of None \<Rightarrow> (Inl TypeError, st) | Some self \<Rightarrow> (Inr self, st))"

definition assign :: "nat \<Rightarrow> (TempDirectory \<Rightarrow> TempDirectory) \<Rightarrow> state \<Rightarrow> state" where
  "assign this f st = st\<lparr>heap := (heap st)(this := map_option f (heap st this))\<rparr>"

text \<open>The constructor: \<^verbatim>\<open>new TempDirectory(namePrefix)\<close> returns a fresh reference.\<close>

definition TempDirectory_new :: "string \<Rightarrow> state \<Rightarrow> nat \<times> state" where
  "TempDirectory_new prefix st =
     (next_ref st,
      st\<lparr>heap := (heap st)(next_ref st \<mapsto> \<lparr>namePrefix = prefix, path = [], lockFile = None\<rparr>),
         next_ref := Suc (next_ref st)\<rparr>)"

text \<open>
  \<^verbatim>\<open>_getTmpDirsList\<close>: the names \<^verbatim>\<open>readDir\<close> yields, filtered first by
  \<^verbatim>\<open>!USED_TEMP_DIRS[tmpDir]\<close> and then by the prefix test on the base name. A rejection of
  \<^verbatim>\<open>readDir\<close> is not caught.
\<close>

definition getTmpDirsList :: "nat \<Rightarrow> state \<Rightarrow> string list result" where
  "getTmpDirsList this st =
     and_then (deref this st) (\<lambda>self st.
       case readDir TESTCAFE_TMP_DIRS_ROOT (fs st) of
         Inl e \<Rightarrow> (Inl e, st)
       | Inr tmpDirNames \<Rightarrow>
           (Inr (filter (\<lambda>tmpDir. startsWith (basename tmpDir) (namePrefix self))
                  (filter (\<lambda>tmpDir. \<not> registered (USED_TEMP_DIRS st) tmpDir) tmpDirNames)),
            st))"

text \<open>\<^verbatim>\<open>_findFreeTmpDir\<close>: the \<^verbatim>\<open>for ... of\<close> loop over the names, left at the first lock.\<close>

fun findFreeTmpDir :: "nat \<Rightarrow> string list \<Rightarrow> state \<Rightarrow> bool result" where
  "findFreeTmpDir this [] st = (Inr False, st)"
| "findFreeTmpDir this (tmpDirName # rest) st =
     (let tmpDirPath = path_join TESTCAFE_TMP_DIRS_ROOT tmpDirName;
          lockFile = LockFile_new tmpDirPath
      in and_then (LockFile_init lockFile st) (\<lambda>locked st.
           if locked
           then (Inr True, assign this (\<lambda>self. self\<lparr>path := tmpDirPath, lockFile := Some lockFile\<rparr>) st)
           else findFreeTmpDir this rest st))"

text \<open>
  \<^verbatim>\<open>tmp.tmpNameSync({ dir, prefix })\<close> of the \<^verbatim>\<open>tmp\<close> package: it draws a random name
  \<open>prefix ^ random\<close> under \<open>dir\<close> and returns it if nothing exists there, tries again
  otherwise, and throws after the fourth name that exists.
\<close>

fun tmpName_loop :: "nat \<Rightarrow> string \<Rightarrow> string \<Rightarrow> state \<Rightarrow> string result" where
  "tmpName_loop 0 dir pre st = (Inl TmpNameError, st)"
| "tmpName_loop (Suc tries) dir pre st =
     (let name = path_join dir (pre @ rng st (seed st));
          st' = st\<lparr>seed := Suc (seed st)\<rparr>
      in if node_at (fs st') name = None then (Inr name, st')
         else tmpName_loop tries dir pre st')"

definition tmpNameSync :: "string \<Rightarrow> string \<Rightarrow> state \<Rightarrow> string result" where
  "tmpNameSync dir pre st = tmpName_loop (Suc (Suc (Suc (Suc 0)))) dir pre st"

text \<open>
  \<^verbatim>\<open>_createNewTmpDir\<close> in the two parts its \<^verbatim>\<open>await\<close> separates: up to and including
  \<^verbatim>\<open>await ensureDir(this.path)\<close>, and what runs when that promise has resolved.
\<close>

definition createNewTmpDir_to_await :: "nat \<Rightarrow> state \<Rightarrow> unit result" where
  "createNewTmpDir_to_await this st =
     and_then (deref this st) (\<lambda>self st.
     and_then (tmpNameSync TESTCAFE_TMP_DIRS_ROOT (namePrefix self @ ''-'') st) (\<lambda>name st.
     and_then (Inr (), assign this (\<lambda>self. self\<lparr>path := name\<rparr>) st) (\<lambda>_ st.
       on_fs (ensureDir name) st)))"

definition createNewTmpDir_from_await :: "nat \<Rightarrow> state \<Rightarrow> unit result" where
  "createNewTmpDir_from_await this st =
     and_then (deref this st) (\<lambda>self st.
       let lf = LockFile_new (path self)
       in and_then (Inr (), assign this (\<lambda>self. self\<lparr>lockFile := Some lf\<rparr>) st) (\<lambda>_ st.
          and_then (LockFile_init lf st) (\<lambda>_ st. (Inr (), st))))"

definition createNewTmpDir :: "nat \<Rightarrow> state \<Rightarrow> unit result" where
  "createNewTmpDir this st =
     and_then (createNewTmpDir_to_await this st) (\<lambda>_ st. createNewTmpDir_from_await this st)"

text \<open>The last statement of \<^verbatim>\<open>init\<close>: \<^verbatim>\<open>USED_TEMP_DIRS[this.path] = this\<close>.\<close>

definition register :: "nat \<Rightarrow> state \<Rightarrow> unit result" where
  "register this st =
     and_then (deref this st) (\<lambda>self st.
       (Inr (), st\<lparr>USED_TEMP_DIRS := AList.update (path self) this (USED_TEMP_DIRS st)\<rparr>))"

text \<open>\<^verbatim>\<open>init\<close>.\<close>

definition init :: "nat \<Rightarrow> state \<Rightarrow> unit result" where
  "init this st =
     and_then (on_fs (ensureDir TESTCAFE_TMP_DIRS_ROOT) st) (\<lambda>_ st.
     and_then (getTmpDirsList this st) (\<lambda>tmpDirNames st.
     and_then (findFreeTmpDir this tmpDirNames st) (\<lambda>existingTmpDirFound st.
     and_then (if \<not> existingTmpDirFound then createNewTmpDir this st else (Inr (), st)) (\<lambda>_ st.
       register this st))))"

text \<open>\<^verbatim>\<open>static createDirectory(prefix)\<close>.\<close>

definition createDirectory :: "string \<Rightarrow> state \<Rightarrow> nat result" where
  "createDirectory prefix st =
     (case TempDirectory_new prefix st of (tmpDir, st) \<Rightarrow>
        and_then (init tmpDir st) (\<lambda>_ st. (Inr tmpDir, st)))"

text \<open>\<^verbatim>\<open>dispose\<close>. Calling \<^verbatim>\<open>dispose\<close> on a \<^verbatim>\<open>lockFile\<close> that is \<^verbatim>\<open>null\<close> throws.\<close>

definition dispose :: "nat \<Rightarrow> state \<Rightarrow> unit result" where
  "dispose this st =
     and_then (deref this st) (\<lambda>self st.
       if \<not> registered (USED_TEMP_DIRS st) (path self) then (Inr (), st)
       else case lockFile self of
              None \<Rightarrow> (Inl TypeError, st)
            | Some lf \<Rightarrow>
                and_then (LockFile_dispose lf st) (\<lambda>_ st.
                  (Inr (), st\<lparr>USED_TEMP_DIRS := AList.delete (path self) (USED_TEMP_DIRS st)\<rparr>)))"

text \<open>
  \<^verbatim>\<open>static disposeDirectories()\<close>: \<^verbatim>\<open>Object.values\<close> takes the registered objects once, in
  insertion order, and \<^verbatim>\<open>forEach\<close> calls \<^verbatim>\<open>dispose\<close> on each of them in turn.
\<close>

fun forEach_dispose :: "nat list \<Rightarrow> state \<Rightarrow> unit result" where
  "forEach_dispose [] st = (Inr (), st)"
| "forEach_dispose (tmpDir # rest) st =
     and_then (dispose tmpDir st) (\<lambda>_ st. forEach_dispose rest st)"

definition disposeDirectories :: "state \<Rightarrow> unit result" where
  "disposeDirectories st = forEach_dispose (map snd (USED_TEMP_DIRS st)) st"

text \<open>
  The module ends with \<^verbatim>\<open>setupExitHook(TempDirectory.disposeDirectories)\<close>: at exit the
  process runs \<open>disposeDirectories\<close> on the state it is in.
\<close>

text \<open>
  \<open>init\<close> in the two parts that the \<^verbatim>\<open>await\<close> inside \<^verbatim>\<open>_createNewTmpDir\<close> separates. The first
  part runs to that \<^verbatim>\<open>await\<close>, if the fallback is taken, and tells whether a candidate was
  claimed; the second part is what runs when the promise of \<^verbatim>\<open>ensureDir\<close> has resolved.
  Between the two, other code runs: another process, or another allocation of this one.
\<close>

definition init_to_await :: "nat \<Rightarrow> state \<Rightarrow> bool result" where
  "init_to_await this st =
     and_then (on_fs (ensureDir TESTCAFE_TMP_DIRS_ROOT) st) (\<lambda>_ st.
     and_then (getTmpDirsList this st) (\<lambda>tmpDirNames st.
     and_then (findFreeTmpDir this tmpDirNames st) (\<lambda>existingTmpDirFound st.
       if \<not> existingTmpDirFound
       then and_then (createNewTmpDir_to_await this st) (\<lambda>_ st. (Inr False, st))
       else (Inr True, st))))"

definition init_from_await :: "nat \<Rightarrow> bool \<Rightarrow> state \<Rightarrow> unit result" where
  "init_from_await this existingTmpDirFound st =
     and_then (if \<not> existingTmpDirFound then createNewTmpDir_from_await this st else (Inr (), st))
       (\<lambda>_ st. register this st)"


section \<open>Notions used in the properties\<close>

text \<open>
  \<open>acquires st tmpDirName\<close>: in the state \<open>st\<close> the lock acquisition that
  \<^verbatim>\<open>_findFreeTmpDir\<close> attempts on the entry \<open>tmpDirName\<close> succeeds.
\<close>

definition acquires :: "state \<Rightarrow> string \<Rightarrow> bool" where
  "acquires st tmpDirName =
     (fst (LockFile_init (LockFile_new (path_join TESTCAFE_TMP_DIRS_ROOT tmpDirName)) st) = Inr True)"

text \<open>
  The state after the object \<open>this\<close> claimed the existing directory \<open>d\<close>: its fields are set,
  the lock marker is the one node added, and the registry maps \<open>d\<close> to the object.
\<close>

definition claim_dir :: "nat \<Rightarrow> string \<Rightarrow> state \<Rightarrow> state" where
  "claim_dir this d st =
     st\<lparr>heap := (heap st)(this := map_option (\<lambda>self. self\<lparr>path := d, lockFile := Some (LockFile_new d)\<rparr>) (heap st this)),
        fs := (fs st)\<lparr>nodes := nodes (fs st) @ [(lock_path (LockFile_new d), File (pid st))]\<rparr>,
        USED_TEMP_DIRS := AList.update d this (USED_TEMP_DIRS st)\<rparr>"

text \<open>
  The three steps of \<open>init\<close> that can reject: creating the pool root, listing it, and
  creating the fresh directory (generating its name and making it) when no candidate was
  claimed.
\<close>

definition root_fails :: "state \<Rightarrow> bool" where
  "root_fails st = isl (ensureDir TESTCAFE_TMP_DIRS_ROOT (fs st))"

definition listing_fails :: "state \<Rightarrow> bool" where
  "listing_fails st =
     (case ensureDir TESTCAFE_TMP_DIRS_ROOT (fs st) of
        Inl e \<Rightarrow> False
      | Inr w \<Rightarrow> isl (readDir TESTCAFE_TMP_DIRS_ROOT w))"

definition fallback_fails :: "nat \<Rightarrow> state \<Rightarrow> bool" where
  "fallback_fails this st =
     (case on_fs (ensureDir TESTCAFE_TMP_DIRS_ROOT) st of
        (Inl e, st1) \<Rightarrow> False
      | (Inr u, st1) \<Rightarrow>
          (case getTmpDirsList this st1 of
             (Inl e, st2) \<Rightarrow> False
           | (Inr names, st2) \<Rightarrow>
               find (acquires st2) names = None \<and> isl (fst (createNewTmpDir_to_await this st2))))"

text \<open>Something exists at a path and is a file.\<close>

definition is_file :: "node option \<Rightarrow> bool" where
  "is_file n = (case n of Some (File c) \<Rightarrow> True | _ \<Rightarrow> False)"

text \<open>
  The registry is well formed: its keys are distinct, and each key \<open>p\<close> is bound to an
  object of the heap, older than \<open>next_ref\<close>, whose \<open>path\<close> is \<open>p\<close> and whose \<open>lockFile\<close> is
  the lock file of \<open>p\<close>. This is how \<open>init\<close> leaves the object it registers.
\<close>

definition entry_ok :: "state \<Rightarrow> string \<times> nat \<Rightarrow> bool" where
  "entry_ok st e =
     (snd e < next_ref st \<and>
      (case heap st (snd e) of
         None \<Rightarrow> False
       | Some a \<Rightarrow> path a = fst e \<and> lockFile a = Some (LockFile_new (fst e))))"

definition registry_ok :: "state \<Rightarrow> bool" where
  "registry_ok st =
     (distinct (map fst (USED_TEMP_DIRS st)) \<and> list_all (entry_ok st) (USED_TEMP_DIRS st))"


text \<open>
  \<open>holds st d\<close>: the lock marker of the directory \<open>d\<close> exists and was created by the process
  of \<open>st\<close>. \<open>registry_inv\<close> is the invariant of the registry: its keys are the directories
  whose lock the process holds.
\<close>

definition holds :: "state \<Rightarrow> string \<Rightarrow> bool" where
  "holds st d = (node_at (fs st) (lock_path (LockFile_new d)) = Some (File (pid st)))"




text \<open>
  The operations a caller has, and a run of them one after the other.
  \<open>allocates d c st\<close>: the call \<open>c\<close>, made in \<open>st\<close>, is an allocation that returns the directory
  \<open>d\<close>. \<open>calls_avoid d cs st\<close>: no call of the run \<open>cs\<close> from \<open>st\<close> is such an allocation.
\<close>

datatype call = Allocate string | Dispose nat | DisposeAll

fun run_call :: "call \<Rightarrow> state \<Rightarrow> state" where
  "run_call (Allocate prefix) st = snd (createDirectory prefix st)"
| "run_call (Dispose tmpDir) st = snd (dispose tmpDir st)"
| "run_call DisposeAll st = snd (disposeDirectories st)"

fun run_calls :: "call list \<Rightarrow> state \<Rightarrow> state" where
  "run_calls [] st = st"
| "run_calls (c # cs) st = run_calls cs (run_call c st)"

fun allocates :: "string \<Rightarrow> call \<Rightarrow> state \<Rightarrow> bool" where
  "allocates d (Allocate prefix) st =
     (case createDirectory prefix st of
        (Inl e, st') \<Rightarrow> False
      | (Inr tmpDir, st') \<Rightarrow> map_option path (heap st' tmpDir) = Some d)"
| "allocates d (Dispose tmpDir) st = False"
| "allocates d DisposeAll st = False"

fun calls_avoid :: "string \<Rightarrow> call list \<Rightarrow> state \<Rightarrow> bool" where
  "calls_avoid d [] st = True"
| "calls_avoid d (c # cs) st = (\<not> allocates d c st \<and> calls_avoid d cs (run_call c st))"


section \<open>Example states\<close>

text \<open>A process just after the module was loaded: no object, an empty registry.\<close>

definition fresh_process :: "nat \<Rightarrow> (nat \<Rightarrow> string) \<Rightarrow> world \<Rightarrow> state" where
  "fresh_process me r w =
     \<lparr>pid = me, heap = (\<lambda>_. None), next_ref = 0, USED_TEMP_DIRS = [], rng = r, seed = 0, fs = w\<rparr>"

text \<open>A random source: the \<open>n\<close>-th name it yields is \<^verbatim>\<open>x\<close> followed by \<open>n\<close> times \<^verbatim>\<open>y\<close>.\<close>

definition rng_xy :: "nat \<Rightarrow> string" where
  "rng_xy n = ''x'' @ replicate n (CHR ''y'')"

text \<open>An empty pool root, nothing refused.\<close>

definition pool_empty :: world where
  "pool_empty = \<lparr>nodes = [(TESTCAFE_TMP_DIRS_ROOT, Dir)], denied = {}\<rparr>"

text \<open>A pool root holding the directory \<^verbatim>\<open>worker-abc\<close>, unlocked, and nothing refused.\<close>

definition pool_abc :: world where
  "pool_abc =
     \<lparr>nodes = [(TESTCAFE_TMP_DIRS_ROOT, Dir),
               (path_join TESTCAFE_TMP_DIRS_ROOT ''worker-abc'', Dir)],
      denied = {}\<rparr>"

text \<open>The same pool with \<^verbatim>\<open>worker-abc\<close> locked by process 7.\<close>

definition pool_abc_locked :: world where
  "pool_abc_locked =
     pool_abc\<lparr>nodes := nodes pool_abc @
       [(path_join (path_join TESTCAFE_TMP_DIRS_ROOT ''worker-abc'') LOCKFILE_NAME, File 7)]\<rparr>"

text \<open>An empty pool root in which creating the lock marker of \<^verbatim>\<open>worker-x\<close> is refused.\<close>

definition pool_refusing :: world where
  "pool_refusing =
     \<lparr>nodes = [(TESTCAFE_TMP_DIRS_ROOT, Dir)],
      denied = {Open (path_join (path_join TESTCAFE_TMP_DIRS_ROOT ''worker-x'') LOCKFILE_NAME)}\<rparr>"

text \<open>A pool root that exists but may not be listed.\<close>

definition pool_unreadable :: world where
  "pool_unreadable =
     \<lparr>nodes = [(TESTCAFE_TMP_DIRS_ROOT, Dir)], denied = {Readdir TESTCAFE_TMP_DIRS_ROOT}\<rparr>"

text \<open>Process 1 in the pool \<open>w\<close>, after \<^verbatim>\<open>new TempDirectory('worker')\<close>.\<close>

definition new_worker_in :: "world \<Rightarrow> state" where
  "new_worker_in w = snd (TempDirectory_new ''worker'' (fresh_process 1 rng_xy w))"

text \<open>Process 1 after it allocated with prefix \<^verbatim>\<open>worker\<close> in the pool \<open>pool_abc\<close>.\<close>

definition held_abc :: state where
  "held_abc = snd (createDirectory ''worker'' (fresh_process 1 rng_xy pool_abc))"

text \<open>Process 1 after a second allocation with prefix \<^verbatim>\<open>worker\<close>.\<close>

definition held_two :: state where
  "held_two = snd (createDirectory ''worker'' held_abc)"

text \<open>The state \<open>held_abc\<close> in a file system that refuses to remove the marker of \<^verbatim>\<open>worker-abc\<close>.\<close>

definition held_abc_stuck :: state where
  "held_abc_stuck =
     held_abc\<lparr>fs := (fs held_abc)\<lparr>denied :=
       {Unlink (path_join (path_join TESTCAFE_TMP_DIRS_ROOT ''worker-abc'') LOCKFILE_NAME)}\<rparr>\<rparr>"


text \<open>
  Process 1 after it allocated \<^verbatim>\<open>worker-abc\<close>, disposed of that allocation, and allocated
  with prefix \<^verbatim>\<open>worker\<close> again.
\<close>

definition reallocated :: state where
  "reallocated = snd (createDirectory ''worker'' (snd (dispose 0 held_abc)))"

text \<open>Process 1 after it disposed of its first allocation in \<open>held_two\<close>.\<close>

definition disposed_first :: state where
  "disposed_first = snd (dispose 0 held_two)"

text \<open>
  A schedule of two processes on the empty pool. Process 1 constructs its allocation and
  runs \<open>init\<close> to the \<^verbatim>\<open>await\<close> of \<^verbatim>\<open>ensureDir\<close> in \<^verbatim>\<open>_createNewTmpDir\<close>: its fresh directory
  is on disk, not yet locked. Process 2 then allocates, start to end, on the file system
  process 1 left. Process 1 then resumes on the file system process 2 left.
\<close>

definition p1_suspended :: state where
  "p1_suspended = snd (init_to_await 0 (new_worker_in pool_empty))"

definition p2_done :: state where
  "p2_done = snd (createDirectory ''worker'' (fresh_process 2 rng_xy (fs p1_suspended)))"

definition p1_done :: state where
  "p1_done = snd (init_from_await 0 False (p1_suspended\<lparr>fs := fs p2_done\<rparr>))"


section \<open>Evaluation and basic facts\<close>

lemmas run_defs =
  createDirectory_def TempDirectory_new_def init_def register_def createNewTmpDir_def
  createNewTmpDir_to_await_def createNewTmpDir_from_await_def tmpNameSync_def
  getTmpDirsList_def dispose_def disposeDirectories_def deref_def assign_def and_then_def
  on_fs_def registered_def Object_prototype_keys_def LockFile_init_def LockFile_new_def
  LockFile_dispose_def openSync_wx_def unlinkSync_def readDir_def ensureDir_def entries_def
  is_entry_of_def node_at_def parent_of_def basename_def startsWith_def path_join_def
  TESTCAFE_TMP_DIRS_ROOT_def os_tmpdir_def LOCKFILE_NAME_def fresh_process_def rng_xy_def
  pool_abc_def pool_abc_locked_def Let_def

lemma new_worker_in_value:
  "new_worker_in w =
     \<lparr>pid = 1,
      heap = [0 \<mapsto> \<lparr>namePrefix = ''worker'', path = [], lockFile = None\<rparr>],
      next_ref = 1, USED_TEMP_DIRS = [], rng = rng_xy, seed = 0, fs = w\<rparr>"
  by (simp add: new_worker_in_def TempDirectory_new_def fresh_process_def)

lemma held_abc_value:
  "held_abc =
     \<lparr>pid = 1,
      heap = [0 \<mapsto> \<lparr>namePrefix = ''worker'', path = ''/tmp/testcafe-tmp/worker-abc'',
                     lockFile = Some \<lparr>lock_path = ''/tmp/testcafe-tmp/worker-abc/.testcafe-lockfile''\<rparr>\<rparr>],
      next_ref = 1,
      USED_TEMP_DIRS = [(''/tmp/testcafe-tmp/worker-abc'', 0)],
      rng = rng_xy, seed = 0,
      fs = \<lparr>nodes = [(''/tmp/testcafe-tmp'', Dir), (''/tmp/testcafe-tmp/worker-abc'', Dir),
                      (''/tmp/testcafe-tmp/worker-abc/.testcafe-lockfile'', File 1)],
            denied = {}\<rparr>\<rparr>"
  by (simp add: held_abc_def run_defs)

lemma held_two_value:
  "held_two =
     \<lparr>pid = 1,
      heap = [0 \<mapsto> \<lparr>namePrefix = ''worker'', path = ''/tmp/testcafe-tmp/worker-abc'',
                     lockFile = Some \<lparr>lock_path = ''/tmp/testcafe-tmp/worker-abc/.testcafe-lockfile''\<rparr>\<rparr>,
              1 \<mapsto> \<lparr>namePrefix = ''worker'', path = ''/tmp/testcafe-tmp/worker-x'',
                     lockFile = Some \<lparr>lock_path = ''/tmp/testcafe-tmp/worker-x/.testcafe-lockfile''\<rparr>\<rparr>],
      next_ref = 2,
      USED_TEMP_DIRS = [(''/tmp/testcafe-tmp/worker-abc'', 0), (''/tmp/testcafe-tmp/worker-x'', 1)],
      rng = rng_xy, seed = 1,
      fs = \<lparr>nodes = [(''/tmp/testcafe-tmp'', Dir), (''/tmp/testcafe-tmp/worker-abc'', Dir),
                      (''/tmp/testcafe-tmp/worker-abc/.testcafe-lockfile'', File 1),
                      (''/tmp/testcafe-tmp/worker-x'', Dir),
                      (''/tmp/testcafe-tmp/worker-x/.testcafe-lockfile'', File 1)],
            denied = {}\<rparr>\<rparr>"
  by (simp add: held_two_def held_abc_value run_defs)

lemma reallocated_value:
  "reallocated =
     \<lparr>pid = 1,
      heap = [0 \<mapsto> \<lparr>namePrefix = ''worker'', path = ''/tmp/testcafe-tmp/worker-abc'',
                     lockFile = Some \<lparr>lock_path = ''/tmp/testcafe-tmp/worker-abc/.testcafe-lockfile''\<rparr>\<rparr>,
              1 \<mapsto> \<lparr>namePrefix = ''worker'', path = ''/tmp/testcafe-tmp/worker-abc'',
                     lockFile = Some \<lparr>lock_path = ''/tmp/testcafe-tmp/worker-abc/.testcafe-lockfile''\<rparr>\<rparr>],
      next_ref = 2,
      USED_TEMP_DIRS = [(''/tmp/testcafe-tmp/worker-abc'', 1)],
      rng = rng_xy, seed = 0,
      fs = \<lparr>nodes = [(''/tmp/testcafe-tmp'', Dir), (''/tmp/testcafe-tmp/worker-abc'', Dir),
                      (''/tmp/testcafe-tmp/worker-abc/.testcafe-lockfile'', File 1)],
            denied = {}\<rparr>\<rparr>"
  by (simp add: reallocated_def held_abc_value run_defs)

lemma disposed_first_value:
  "disposed_first =
     \<lparr>pid = 1,
      heap = [0 \<mapsto> \<lparr>namePrefix = ''worker'', path = ''/tmp/testcafe-tmp/worker-abc'',
                     lockFile = Some \<lparr>lock_path = ''/tmp/testcafe-tmp/worker-abc/.testcafe-lockfile''\<rparr>\<rparr>,
              1 \<mapsto> \<lparr>namePrefix = ''worker'', path = ''/tmp/testcafe-tmp/worker-x'',
                     lockFile = Some \<lparr>lock_path = ''/tmp/testcafe-tmp/worker-x/.testcafe-lockfile''\<rparr>\<rparr>],
      next_ref = 2,
      USED_TEMP_DIRS = [(''/tmp/testcafe-tmp/worker-x'', 1)],
      rng = rng_xy, seed = 1,
      fs = \<lparr>nodes = [(''/tmp/testcafe-tmp'', Dir), (''/tmp/testcafe-tmp/worker-abc'', Dir),
                      (''/tmp/testcafe-tmp/worker-x'', Dir),
                      (''/tmp/testcafe-tmp/worker-x/.testcafe-lockfile'', File 1)],
            denied = {}\<rparr>\<rparr>"
  by (simp add: disposed_first_def held_two_value run_defs)

lemma later_value:
  "run_calls [Allocate ''other'', Dispose 1] disposed_first =
     \<lparr>pid = 1,
      heap = [0 \<mapsto> \<lparr>namePrefix = ''worker'', path = ''/tmp/testcafe-tmp/worker-abc'',
                     lockFile = Some \<lparr>lock_path = ''/tmp/testcafe-tmp/worker-abc/.testcafe-lockfile''\<rparr>\<rparr>,
              1 \<mapsto> \<lparr>namePrefix = ''worker'', path = ''/tmp/testcafe-tmp/worker-x'',
                     lockFile = Some \<lparr>lock_path = ''/tmp/testcafe-tmp/worker-x/.testcafe-lockfile''\<rparr>\<rparr>,
              2 \<mapsto> \<lparr>namePrefix = ''other'', path = ''/tmp/testcafe-tmp/other-xy'',
                     lockFile = Some \<lparr>lock_path = ''/tmp/testcafe-tmp/other-xy/.testcafe-lockfile''\<rparr>\<rparr>],
      next_ref = 3,
      USED_TEMP_DIRS = [(''/tmp/testcafe-tmp/other-xy'', 2)],
      rng = rng_xy, seed = 2,
      fs = \<lparr>nodes = [(''/tmp/testcafe-tmp'', Dir), (''/tmp/testcafe-tmp/worker-abc'', Dir),
                      (''/tmp/testcafe-tmp/worker-x'', Dir),
                      (''/tmp/testcafe-tmp/other-xy'', Dir),
                      (''/tmp/testcafe-tmp/other-xy/.testcafe-lockfile'', File 1)],
            denied = {}\<rparr>\<rparr>"
  by (simp add: disposed_first_value run_defs)

lemma parent_of_path_join: "CHR ''/'' \<notin> set n \<Longrightarrow> parent_of (path_join d n) = d"
  by (simp add: parent_of_def path_join_def dropWhile_append3 takeWhile_eq_all_conv[THEN iffD2] dropWhile_eq_Nil_conv[THEN iffD2] dropWhile_append)

lemma parent_of_lock [simp]: "parent_of (path_join d LOCKFILE_NAME) = d"
  by (rule parent_of_path_join) (simp add: LOCKFILE_NAME_def)

lemma path_join_inject [simp]: "(path_join a n = path_join b n) = (a = b)"
  by (simp add: path_join_def)

lemma path_join_inject2 [simp]: "(path_join a n = path_join a m) = (n = m)"
  by (simp add: path_join_def)

lemma path_join_neq [simp]: "path_join a b \<noteq> a"
  by (simp add: path_join_def)

lemma lock_path_inject [simp]:
  "(lock_path (LockFile_new p) = lock_path (LockFile_new d)) = (p = d)"
  by (simp add: LockFile_new_def)

lemma node_at_append:
  "node_at (w\<lparr>nodes := nodes w @ [(p, n)]\<rparr>) q =
     (case node_at w q of Some m \<Rightarrow> Some m | None \<Rightarrow> if q = p then Some n else None)"
  by (simp add: node_at_def map_add_def split: option.splits)

lemma node_at_nodes_append:
  "node_at (w\<lparr>nodes := nodes w @ xs\<rparr>) q =
     (case node_at w q of Some m \<Rightarrow> Some m | None \<Rightarrow> map_of xs q)"
  by (simp add: node_at_def map_add_def split: option.splits)

lemma map_of_remove:
  "map_of (filter (\<lambda>(q, n). q \<noteq> p) xs) q = (if q = p then None else map_of xs q)"
  by (induction xs) auto

lemma node_at_filter:
  "node_at (w\<lparr>nodes := filter (\<lambda>(q, n). q \<noteq> p) (nodes w)\<rparr>) q =
     (if q = p then None else node_at w q)"
  by (simp add: node_at_def map_of_remove)

lemma node_at_unlink:
  "unlinkSync p w = Inr w' \<Longrightarrow>
     denied w' = denied w \<and> (\<forall>q. node_at w' q = (if q = p then None else node_at w q))"
  by (auto simp: unlinkSync_def node_at_filter split: option.splits node.splits if_splits)

lemma ensureDir_files:
  "ensureDir d w = Inr w' \<Longrightarrow>
     denied w' = denied w \<and> (\<forall>q c. (node_at w' q = Some (File c)) = (node_at w q = Some (File c)))"
  by (auto simp: ensureDir_def node_at_nodes_append
           split: option.splits node.splits if_splits)

lemma LockFile_init_cases:
  "LockFile_init lf st =
     (if node_at (fs st) (parent_of (lock_path lf)) = Some Dir \<and> node_at (fs st) (lock_path lf) = None
         \<and> Open (lock_path lf) \<notin> denied (fs st)
      then (Inr True, st\<lparr>fs := (fs st)\<lparr>nodes := nodes (fs st) @ [(lock_path lf, File (pid st))]\<rparr>\<rparr>)
      else (Inr False, st))"
  by (auto simp: LockFile_init_def openSync_wx_def split: option.splits node.splits)

lemma LockFile_init_frame:
  "heap (snd (LockFile_init lf st)) = heap st
   \<and> USED_TEMP_DIRS (snd (LockFile_init lf st)) = USED_TEMP_DIRS st
   \<and> pid (snd (LockFile_init lf st)) = pid st
   \<and> next_ref (snd (LockFile_init lf st)) = next_ref st
   \<and> rng (snd (LockFile_init lf st)) = rng st
   \<and> seed (snd (LockFile_init lf st)) = seed st
   \<and> denied (fs (snd (LockFile_init lf st))) = denied (fs st)"
  by (simp add: LockFile_init_cases)

lemma LockFile_init_returns: "\<exists>b. fst (LockFile_init lf st) = Inr b"
  by (auto simp: LockFile_init_cases)


lemma LockFile_dispose_returns: "fst (LockFile_dispose lf st) = Inr ()"
  by (simp add: LockFile_dispose_def split: sum.splits)

lemma unlinkSync_twice: "unlinkSync p w = Inr w' \<Longrightarrow> unlinkSync p w' = Inl ENOENT"
  by (auto simp: unlinkSync_def node_at_filter split: option.splits node.splits if_splits)

lemma LockFile_dispose_twice:
  "LockFile_dispose lf (snd (LockFile_dispose lf st)) = LockFile_dispose lf st"
  by (auto simp: LockFile_dispose_def dest: unlinkSync_twice split: sum.splits)

lemma LockFile_dispose_frame:
  "LockFile_dispose lf st = (r, st') \<Longrightarrow>
     heap st' = heap st \<and> USED_TEMP_DIRS st' = USED_TEMP_DIRS st \<and> pid st' = pid st
     \<and> next_ref st' = next_ref st \<and> rng st' = rng st \<and> seed st' = seed st"
  by (auto simp: LockFile_dispose_def split: sum.splits)

lemma LockFile_dispose_registry:
  "LockFile_dispose lf (st\<lparr>USED_TEMP_DIRS := u\<rparr>) =
     (fst (LockFile_dispose lf st), (snd (LockFile_dispose lf st))\<lparr>USED_TEMP_DIRS := u\<rparr>)"
  by (simp add: LockFile_dispose_def split: sum.splits)

lemma LockFile_dispose_effect:
  "\<exists>st'. LockFile_dispose lf st = (Inr (), st')
     \<and> heap st' = heap st \<and> USED_TEMP_DIRS st' = USED_TEMP_DIRS st \<and> pid st' = pid st
     \<and> next_ref st' = next_ref st \<and> denied (fs st') = denied (fs st)
     \<and> (\<forall>q. node_at (fs st') q =
           (if q = lock_path lf \<and> is_file (node_at (fs st) q) \<and> Unlink q \<notin> denied (fs st)
            then None else node_at (fs st) q))"
proof (cases "unlinkSync (lock_path lf) (fs st)")
  case (Inl e)
  then show ?thesis
    by (auto simp: LockFile_dispose_def unlinkSync_def is_file_def
             split: option.splits node.splits if_splits)
next
  case (Inr w)
  from node_at_unlink [OF Inr] Inr show ?thesis
    by (auto simp: LockFile_dispose_def unlinkSync_def is_file_def
             split: option.splits node.splits if_splits)
qed


section \<open>The lock primitive\<close>



text \<open>
  Lock release never throws, changes nothing when the marker is already gone, and a
  second release changes nothing more. A second \<open>dispose\<close> directly after one that returned,
  and a \<open>dispose\<close> on an allocation whose path is not registered, change nothing.
\<close>

lemma release_basic:
  "fst (LockFile_dispose lf st) = Inr ()
   \<and> (node_at (fs st) (lock_path lf) = None \<longrightarrow> LockFile_dispose lf st = (Inr (), st))
   \<and> LockFile_dispose lf (snd (LockFile_dispose lf st)) = LockFile_dispose lf st
   \<and> (dispose this st = (Inr (), st1) \<longrightarrow> dispose this st1 = (Inr (), st1))
   \<and> (heap st this = Some a \<and> \<not> registered (USED_TEMP_DIRS st) (path a) \<longrightarrow>
        dispose this st = (Inr (), st))
   \<and> (\<not> registered (USED_TEMP_DIRS st) [] \<longrightarrow>
        dispose (fst (TempDirectory_new prefix st)) (snd (TempDirectory_new prefix st))
          = (Inr (), snd (TempDirectory_new prefix st)))"
proof (intro conjI impI)
  show "fst (LockFile_dispose lf st) = Inr ()" by (rule LockFile_dispose_returns)
  show "LockFile_dispose lf st = (Inr (), st)" if "node_at (fs st) (lock_path lf) = None"
    using that by (simp add: LockFile_dispose_def unlinkSync_def)
  show "LockFile_dispose lf (snd (LockFile_dispose lf st)) = LockFile_dispose lf st"
    by (rule LockFile_dispose_twice)
  show "dispose this st = (Inr (), st)"
    if "heap st this = Some a \<and> \<not> registered (USED_TEMP_DIRS st) (path a)"
    using that by (simp add: dispose_def deref_def and_then_def)
  show "dispose (fst (TempDirectory_new prefix st)) (snd (TempDirectory_new prefix st))
          = (Inr (), snd (TempDirectory_new prefix st))"
    if "\<not> registered (USED_TEMP_DIRS st) []"
    using that by (simp add: dispose_def deref_def and_then_def TempDirectory_new_def)
  show "dispose this st1 = (Inr (), st1)" if d: "dispose this st = (Inr (), st1)"
  proof (cases "heap st this")
    case None
    with d show ?thesis by (simp add: dispose_def deref_def and_then_def)
  next
    case (Some self)
    show ?thesis
    proof (cases "registered (USED_TEMP_DIRS st) (path self)")
      case False
      with d Some show ?thesis by (simp add: dispose_def deref_def and_then_def)
    next
      case True
      with d Some obtain lf' where lf': "lockFile self = Some lf'"
        by (cases "lockFile self") (auto simp: dispose_def deref_def and_then_def)
      obtain st2 where st2: "LockFile_dispose lf' st = (Inr (), st2)"
        using LockFile_dispose_returns [of lf' st] by (cases "LockFile_dispose lf' st") auto
      from d Some True lf' st2
      have st1: "st1 = st2\<lparr>USED_TEMP_DIRS := AList.delete (path self) (USED_TEMP_DIRS st2)\<rparr>"
        by (simp add: dispose_def deref_def and_then_def)
      have fr: "heap st2 = heap st" "USED_TEMP_DIRS st2 = USED_TEMP_DIRS st"
        using LockFile_dispose_frame [OF st2] by simp_all
      have again: "LockFile_dispose lf' st2 = (Inr (), st2)"
        using LockFile_dispose_twice [of lf' st] st2 by simp
      have "LockFile_dispose lf' st1 = (Inr (), st1)"
        using again by (simp add: st1 LockFile_dispose_registry)
      then show ?thesis
        using Some lf' fr
        by (simp add: dispose_def deref_def and_then_def st1 AList.delete_idem)
    qed
  qed
qed

section \<open>The candidate list\<close>

text \<open>
  The names a listing yields have no separator, and the keys that \<open>init\<close> stores are joined
  paths, which have one. So \<^verbatim>\<open>USED_TEMP_DIRS[tmpDir]\<close> never finds a property of the
  registry's own at an entry name, and the first filter of \<^verbatim>\<open>_getTmpDirsList\<close> drops the
  names of the members of \<^verbatim>\<open>Object.prototype\<close> and nothing else.
\<close>

lemma entries_no_separator: "n \<in> set (entries w d) \<Longrightarrow> CHR ''/'' \<notin> set n"
  by (auto simp: entries_def is_entry_of_def)

lemma registered_entry_name:
  assumes "\<forall>k\<in>fst ` set reg. CHR ''/'' \<in> set k" and "CHR ''/'' \<notin> set n"
  shows "registered reg n = (n \<in> set Object_prototype_keys)"
proof -
  have "map_of reg n = None"
    using assms by (auto simp: map_of_eq_None_iff)
  then show ?thesis by (simp add: registered_def)
qed

lemma getTmpDirsList_ignores_registry:
  assumes "heap st this = Some self"
      and "readDir TESTCAFE_TMP_DIRS_ROOT (fs st) = Inr names"
      and "\<forall>k\<in>fst ` set (USED_TEMP_DIRS st). CHR ''/'' \<in> set k"
  shows "getTmpDirsList this st =
           (Inr (filter (\<lambda>tmpDir. startsWith (basename tmpDir) (namePrefix self))
                  (filter (\<lambda>tmpDir. tmpDir \<notin> set Object_prototype_keys) names)), st)"
proof -
  have "names = entries (fs st) TESTCAFE_TMP_DIRS_ROOT"
    using assms(2) by (auto simp: readDir_def split: option.splits node.splits if_splits)
  then have "\<forall>n\<in>set names. CHR ''/'' \<notin> set n"
    using entries_no_separator by blast
  then have "filter (\<lambda>tmpDir. \<not> registered (USED_TEMP_DIRS st) tmpDir) names
      = filter (\<lambda>tmpDir. tmpDir \<notin> set Object_prototype_keys) names"
    using registered_entry_name [OF assms(3)] by (intro filter_cong) auto
  then show ?thesis
    using assms(1,2) by (simp add: getTmpDirsList_def deref_def and_then_def)
qed

text \<open>
  C2 (the code at an input where it departs from the claim). Process 1 holds
  \<^verbatim>\<open>worker-abc\<close>: the registry has its full path as a key. The candidate list of
  \<^verbatim>\<open>_getTmpDirsList\<close> for the prefix \<^verbatim>\<open>worker\<close> still contains \<^verbatim>\<open>worker-abc\<close>, because
  the registry is read at the entry name, not at the path.
\<close>

theorem getTmpDirsList_keeps_held_directory:
  "map_of (USED_TEMP_DIRS held_abc) (path_join TESTCAFE_TMP_DIRS_ROOT ''worker-abc'') = Some 0
   \<and> map_option path (heap held_abc 0) = Some (path_join TESTCAFE_TMP_DIRS_ROOT ''worker-abc'')
   \<and> fst (getTmpDirsList 0 held_abc) = Inr [''worker-abc'']"
  by (simp add: held_abc_value run_defs)


section \<open>Claiming an existing directory\<close>

lemma find_first:
  "find P xs = Some x \<Longrightarrow> \<exists>pre post. xs = pre @ x # post \<and> (\<forall>k\<in>set pre. \<not> P k) \<and> P x"
proof (induction xs)
  case Nil
  then show ?case by simp
next
  case (Cons a xs)
  show ?case
  proof (cases "P a")
    case True
    with Cons.prems have "a = x" by simp
    with True have "a # xs = [] @ x # xs \<and> (\<forall>k\<in>set []. \<not> P k) \<and> P x" by simp
    then show ?thesis by blast
  next
    case False
    with Cons obtain pre post where "xs = pre @ x # post" "\<forall>k\<in>set pre. \<not> P k" "P x"
      by auto
    with False have "a # xs = (a # pre) @ x # post \<and> (\<forall>k\<in>set (a # pre). \<not> P k) \<and> P x"
      by simp
    then show ?thesis by blast
  qed
qed

lemma findFreeTmpDir_find:
  "findFreeTmpDir this names st =
     (case find (acquires st) names of
        None \<Rightarrow> (Inr False, st)
      | Some n \<Rightarrow>
          (Inr True,
           assign this (\<lambda>self. self\<lparr>path := path_join TESTCAFE_TMP_DIRS_ROOT n,
                                     lockFile := Some (LockFile_new (path_join TESTCAFE_TMP_DIRS_ROOT n))\<rparr>)
             (snd (LockFile_init (LockFile_new (path_join TESTCAFE_TMP_DIRS_ROOT n)) st))))"
proof (induction names)
  case Nil
  show ?case by simp
next
  case (Cons n names)
  show ?case
  proof (cases "acquires st n")
    case True
    then show ?thesis
      by (cases "LockFile_init (LockFile_new (path_join TESTCAFE_TMP_DIRS_ROOT n)) st")
         (simp add: acquires_def and_then_def Let_def)
  next
    case False
    then have "LockFile_init (LockFile_new (path_join TESTCAFE_TMP_DIRS_ROOT n)) st = (Inr False, st)"
      by (simp add: acquires_def LockFile_init_cases split: if_splits)
    with False Cons show ?thesis
      by (simp add: and_then_def Let_def)
  qed
qed

lemma init_after_listing:
  assumes "on_fs (ensureDir TESTCAFE_TMP_DIRS_ROOT) st = (Inr (), st1)"
      and "getTmpDirsList this st1 = (Inr names, st1)"
  shows "init this st =
           and_then (findFreeTmpDir this names st1) (\<lambda>existingTmpDirFound st.
           and_then (if \<not> existingTmpDirFound then createNewTmpDir this st else (Inr (), st)) (\<lambda>_ st.
             register this st))"
  using assms by (simp add: init_def and_then_def)

lemma on_fs_ensureDir_heap:
  "on_fs (ensureDir d) st = (r, st1) \<Longrightarrow>
     heap st1 = heap st \<and> USED_TEMP_DIRS st1 = USED_TEMP_DIRS st \<and> pid st1 = pid st
     \<and> rng st1 = rng st \<and> seed st1 = seed st \<and> next_ref st1 = next_ref st
     \<and> denied (fs st1) = denied (fs st)"
  by (auto simp: on_fs_def ensureDir_def split: sum.splits option.splits node.splits if_splits)




section \<open>Creating a fresh directory\<close>

lemma tmpName_loop_result:
  "tmpName_loop n dir pre st = (Inr name, st2) \<Longrightarrow>
     \<exists>k<n. name = path_join dir (pre @ rng st (seed st + k)) \<and> node_at (fs st) name = None
          \<and> st2 = st\<lparr>seed := Suc (seed st + k)\<rparr>"
proof (induction n arbitrary: st)
  case 0
  then show ?case by simp
next
  case (Suc n)
  let ?name = "path_join dir (pre @ rng st (seed st))"
  show ?case
  proof (cases "node_at (fs st) ?name = None")
    case True
    with Suc.prems have "name = ?name" "st2 = st\<lparr>seed := Suc (seed st)\<rparr>"
      by (simp_all add: Let_def)
    with True have "0 < Suc n \<and> name = path_join dir (pre @ rng st (seed st + 0))
        \<and> node_at (fs st) name = None \<and> st2 = st\<lparr>seed := Suc (seed st + 0)\<rparr>"
      by simp
    then show ?thesis by blast
  next
    case False
    with Suc.prems have "tmpName_loop n dir pre (st\<lparr>seed := Suc (seed st)\<rparr>) = (Inr name, st2)"
      by (simp add: Let_def)
    from Suc.IH [OF this] obtain k where k: "k < n"
      "name = path_join dir (pre @ rng st (Suc (seed st + k)))"
      "node_at (fs st) name = None" "st2 = st\<lparr>seed := Suc (Suc (seed st + k))\<rparr>"
      by auto
    then have "Suc k < Suc n \<and> name = path_join dir (pre @ rng st (seed st + Suc k))
        \<and> node_at (fs st) name = None \<and> st2 = st\<lparr>seed := Suc (seed st + Suc k)\<rparr>"
      by simp
    then show ?thesis by blast
  qed
qed

lemma createNewTmpDir_to_await_result:
  assumes "heap st this = Some self"
      and "createNewTmpDir_to_await this st = (Inr (), st2)"
  shows "\<exists>k<4. \<exists>name. name = path_join TESTCAFE_TMP_DIRS_ROOT (namePrefix self @ ''-'' @ rng st (seed st + k))
           \<and> node_at (fs st) name = None
           \<and> st2 = st\<lparr>seed := Suc (seed st + k),
                      heap := (heap st)(this \<mapsto> self\<lparr>path := name\<rparr>),
                      fs := (fs st)\<lparr>nodes := nodes (fs st) @ [(name, Dir)]\<rparr>\<rparr>"
proof -
  obtain r st' where t: "tmpNameSync TESTCAFE_TMP_DIRS_ROOT (namePrefix self @ ''-'') st = (r, st')"
    by (cases "tmpNameSync TESTCAFE_TMP_DIRS_ROOT (namePrefix self @ ''-'') st")
  with assms obtain name where r: "r = Inr name"
    by (cases r) (auto simp: createNewTmpDir_to_await_def deref_def and_then_def)
  from t r have "tmpName_loop (Suc (Suc (Suc (Suc 0)))) TESTCAFE_TMP_DIRS_ROOT (namePrefix self @ ''-'') st = (Inr name, st')"
    by (simp add: tmpNameSync_def)
  from tmpName_loop_result [OF this]
  have "\<exists>k<4. name = path_join TESTCAFE_TMP_DIRS_ROOT ((namePrefix self @ ''-'') @ rng st (seed st + k))
      \<and> node_at (fs st) name = None \<and> st' = st\<lparr>seed := Suc (seed st + k)\<rparr>"
    by (simp add: eval_nat_numeral)
  then obtain k where k: "k < 4"
      "name = path_join TESTCAFE_TMP_DIRS_ROOT (namePrefix self @ ''-'' @ rng st (seed st + k))"
      "node_at (fs st) name = None" "st' = st\<lparr>seed := Suc (seed st + k)\<rparr>"
    by auto
  from assms t r k(3,4)
  have "st2 = st\<lparr>seed := Suc (seed st + k),
                      heap := (heap st)(this \<mapsto> self\<lparr>path := name\<rparr>),
                      fs := (fs st)\<lparr>nodes := nodes (fs st) @ [(name, Dir)]\<rparr>\<rparr>"
    by (auto simp: createNewTmpDir_to_await_def deref_def and_then_def assign_def on_fs_def
          ensureDir_def split: if_splits)
  with k show ?thesis by blast
qed

lemma createNewTmpDir_from_await_result:
  assumes "heap st2 this = Some self2"
  shows "createNewTmpDir_from_await this st2 =
           (Inr (), snd (LockFile_init (LockFile_new (path self2))
                      (st2\<lparr>heap := (heap st2)(this \<mapsto> self2\<lparr>lockFile := Some (LockFile_new (path self2))\<rparr>)\<rparr>)))"
  using assms LockFile_init_returns [of "LockFile_new (path self2)"
        "st2\<lparr>heap := (heap st2)(this \<mapsto> self2\<lparr>lockFile := Some (LockFile_new (path self2))\<rparr>)\<rparr>"]
  by (cases "LockFile_init (LockFile_new (path self2))
        (st2\<lparr>heap := (heap st2)(this \<mapsto> self2\<lparr>lockFile := Some (LockFile_new (path self2))\<rparr>)\<rparr>)")
     (auto simp: createNewTmpDir_from_await_def deref_def and_then_def assign_def Let_def)




section \<open>When an allocation is rejected\<close>

lemma findFreeTmpDir_returns: "\<exists>b. fst (findFreeTmpDir this names st) = Inr b"
  by (auto simp: findFreeTmpDir_find split: option.splits)

lemma init_rejects:
  assumes "heap st this = Some self"
  shows "isl (fst (init this st)) = (root_fails st \<or> listing_fails st \<or> fallback_fails this st)"
proof (cases "ensureDir TESTCAFE_TMP_DIRS_ROOT (fs st)")
  case (Inl e)
  then show ?thesis
    by (simp add: init_def on_fs_def and_then_def root_fails_def)
next
  case (Inr w)
  let ?st1 = "st\<lparr>fs := w\<rparr>"
  have o: "on_fs (ensureDir TESTCAFE_TMP_DIRS_ROOT) st = (Inr (), ?st1)"
    using Inr by (simp add: on_fs_def)
  have h1: "heap ?st1 this = Some self" using assms by simp
  have nroot: "\<not> root_fails st" using Inr by (simp add: root_fails_def)
  show ?thesis
  proof (cases "readDir TESTCAFE_TMP_DIRS_ROOT w")
    case (Inl e)
    then have "listing_fails st" using Inr by (simp add: listing_fails_def)
    moreover have "isl (fst (init this st))"
      using Inl o h1 by (simp add: init_def and_then_def getTmpDirsList_def deref_def)
    ultimately show ?thesis by simp
  next
    case rd: (Inr tmpDirNames)
    then have nlist: "\<not> listing_fails st" using Inr by (simp add: listing_fails_def)
    obtain names where g: "getTmpDirsList this ?st1 = (Inr names, ?st1)"
      using rd h1 by (simp add: getTmpDirsList_def deref_def and_then_def)
    have fb: "fallback_fails this st =
        (find (acquires ?st1) names = None \<and> isl (fst (createNewTmpDir_to_await this ?st1)))"
      using o g by (simp add: fallback_fails_def)
    show ?thesis
    proof (cases "find (acquires ?st1) names")
      case (Some n)
      then have "\<not> isl (fst (init this st))"
        using h1 by (simp add: init_after_listing [OF o g] findFreeTmpDir_find and_then_def
            register_def deref_def assign_def LockFile_init_frame)
      with Some fb nroot nlist show ?thesis by simp
    next
      case None
      obtain r st2 where t: "createNewTmpDir_to_await this ?st1 = (r, st2)"
        by (cases "createNewTmpDir_to_await this ?st1")
      show ?thesis
      proof (cases r)
        case (Inl e)
        with t None have "isl (fst (init this st))"
          by (simp add: init_after_listing [OF o g] findFreeTmpDir_find and_then_def
              createNewTmpDir_def)
        with Inl t None fb show ?thesis by simp
      next
        case (Inr u)
        with t have t': "createNewTmpDir_to_await this ?st1 = (Inr (), st2)" by simp
        from createNewTmpDir_to_await_result [OF h1 t'] obtain name
          where h2: "heap st2 this = Some (self\<lparr>path := name\<rparr>)"
          by auto
        have "\<not> isl (fst (init this st))"
          using t' None createNewTmpDir_from_await_result [OF h2]
          by (simp add: init_after_listing [OF o g] findFreeTmpDir_find and_then_def
              createNewTmpDir_def register_def deref_def LockFile_init_frame)
        with t' None fb nroot nlist show ?thesis by simp
      qed
    qed
  qed
qed

lemma fails_after_new:
  "root_fails (snd (TempDirectory_new prefix st)) = root_fails st"
  "listing_fails (snd (TempDirectory_new prefix st)) = listing_fails st"
  by (simp_all add: root_fails_def listing_fails_def TempDirectory_new_def)

text \<open>
  C3 (the claim as stated fails). The pool root exists and may not be listed: creating
  the pool root does not fail and the fallback is never reached, yet the allocation is
  rejected, by the error of \<^verbatim>\<open>readDir\<close>.
\<close>

theorem createDirectory_rejects_on_unreadable_root:
  "\<not> (isl (fst (createDirectory ''worker'' (fresh_process 1 rng_xy pool_unreadable)))
        = (root_fails (fresh_process 1 rng_xy pool_unreadable)
           \<or> fallback_fails 0 (new_worker_in pool_unreadable)))"
  by (simp add: new_worker_in_value fallback_fails_def root_fails_def pool_refusing_def pool_unreadable_def run_defs)

text \<open>
  C3 (amended). An allocation is rejected exactly when creating the pool root fails,
  listing the pool root fails, or no candidate was claimed and creating the fresh
  directory fails. No lock attempt ever throws out of \<^verbatim>\<open>_findFreeTmpDir\<close> or
  \<^verbatim>\<open>LockFile.init\<close>.
\<close>

theorem createDirectory_rejects_iff:
  "isl (fst (createDirectory prefix st))
     = (root_fails st \<or> listing_fails st
        \<or> fallback_fails (next_ref st) (snd (TempDirectory_new prefix st)))
   \<and> (\<exists>b. fst (findFreeTmpDir this names st) = Inr b)
   \<and> (\<exists>b. fst (LockFile_init lf st) = Inr b)"
proof -
  let ?st0 = "snd (TempDirectory_new prefix st)"
  have h: "heap ?st0 (next_ref st) = Some \<lparr>namePrefix = prefix, path = [], lockFile = None\<rparr>"
    by (simp add: TempDirectory_new_def)
  have "isl (fst (createDirectory prefix st)) = isl (fst (init (next_ref st) ?st0))"
    by (cases "init (next_ref st) ?st0")
       (auto simp: createDirectory_def TempDirectory_new_def and_then_def split: sum.splits)
  then show ?thesis
    using init_rejects [OF h] findFreeTmpDir_returns LockFile_init_returns
    by (simp add: fails_after_new)
qed

theorem createDirectory_rejects_iff_witness:
  "isl (fst (createDirectory ''worker'' (fresh_process 1 rng_xy pool_unreadable)))
   \<and> listing_fails (fresh_process 1 rng_xy pool_unreadable)
   \<and> \<not> isl (fst (createDirectory ''worker'' (fresh_process 1 rng_xy pool_refusing)))
   \<and> \<not> root_fails (fresh_process 1 rng_xy pool_refusing)
   \<and> \<not> listing_fails (fresh_process 1 rng_xy pool_refusing)"
  using createDirectory_rejects_iff [of "''worker''" "fresh_process 1 rng_xy pool_unreadable"]
        createDirectory_rejects_iff [of "''worker''" "fresh_process 1 rng_xy pool_refusing"]
  by (simp add: fallback_fails_def root_fails_def listing_fails_def pool_refusing_def pool_unreadable_def run_defs)


section \<open>Releasing one allocation\<close>

text \<open>
  C10. For an allocation \<open>a\<close> that the registry holds under its path, \<open>dispose\<close> returns,
  deletes the entry keyed by \<open>a\<close>'s path, leaves the entry of every other key as it was,
  and leaves the heap, so \<open>a\<close>'s \<open>path\<close> and \<open>lockFile\<close>, unchanged.
\<close>

theorem dispose_frame:
  assumes "heap st this = Some a"
      and "map_of (USED_TEMP_DIRS st) (path a) = Some this"
      and "lockFile a = Some lf"
  shows "fst (dispose this st) = Inr ()
     \<and> USED_TEMP_DIRS (snd (dispose this st)) = AList.delete (path a) (USED_TEMP_DIRS st)
     \<and> map_of (USED_TEMP_DIRS (snd (dispose this st))) (path a) = None
     \<and> (\<forall>k. k \<noteq> path a \<longrightarrow>
           map_of (USED_TEMP_DIRS (snd (dispose this st))) k = map_of (USED_TEMP_DIRS st) k)
     \<and> heap (snd (dispose this st)) = heap st
     \<and> heap (snd (dispose this st)) this = Some a"
proof -
  obtain st2 where st2: "LockFile_dispose lf st = (Inr (), st2)"
    using LockFile_dispose_returns [of lf st] by (cases "LockFile_dispose lf st") auto
  have fr: "heap st2 = heap st" "USED_TEMP_DIRS st2 = USED_TEMP_DIRS st"
    using LockFile_dispose_frame [OF st2] by simp_all
  have "dispose this st =
          (Inr (), st2\<lparr>USED_TEMP_DIRS := AList.delete (path a) (USED_TEMP_DIRS st2)\<rparr>)"
    using assms st2 by (simp add: dispose_def deref_def and_then_def registered_def)
  then show ?thesis
    using fr assms(1) by (simp add: delete_conv')
qed

theorem dispose_frame_witness:
  "heap held_abc 0 = Some \<lparr>namePrefix = ''worker'', path = ''/tmp/testcafe-tmp/worker-abc'',
       lockFile = Some \<lparr>lock_path = ''/tmp/testcafe-tmp/worker-abc/.testcafe-lockfile''\<rparr>\<rparr>
   \<and> map_of (USED_TEMP_DIRS held_abc) ''/tmp/testcafe-tmp/worker-abc'' = Some 0
   \<and> fst (dispose 0 held_abc) = Inr ()
   \<and> USED_TEMP_DIRS (snd (dispose 0 held_abc)) = []
   \<and> heap (snd (dispose 0 held_abc)) = heap held_abc
   \<and> heap held_two 0 = Some \<lparr>namePrefix = ''worker'', path = ''/tmp/testcafe-tmp/worker-abc'',
       lockFile = Some \<lparr>lock_path = ''/tmp/testcafe-tmp/worker-abc/.testcafe-lockfile''\<rparr>\<rparr>
   \<and> map_of (USED_TEMP_DIRS held_two) ''/tmp/testcafe-tmp/worker-abc'' = Some 0
   \<and> map_of (USED_TEMP_DIRS held_two) ''/tmp/testcafe-tmp/worker-x'' = Some 1
   \<and> fst (dispose 0 held_two) = Inr ()
   \<and> USED_TEMP_DIRS (snd (dispose 0 held_two)) = [(''/tmp/testcafe-tmp/worker-x'', 1)]
   \<and> map_of (USED_TEMP_DIRS (snd (dispose 0 held_two))) ''/tmp/testcafe-tmp/worker-abc'' = None
   \<and> map_of (USED_TEMP_DIRS (snd (dispose 0 held_two))) ''/tmp/testcafe-tmp/worker-x'' = Some 1
   \<and> heap (snd (dispose 0 held_two)) = heap held_two"
proof -
  have single: "heap held_abc 0 = Some \<lparr>namePrefix = ''worker'', path = ''/tmp/testcafe-tmp/worker-abc'',
         lockFile = Some \<lparr>lock_path = ''/tmp/testcafe-tmp/worker-abc/.testcafe-lockfile''\<rparr>\<rparr>
     \<and> map_of (USED_TEMP_DIRS held_abc) ''/tmp/testcafe-tmp/worker-abc'' = Some 0
     \<and> fst (dispose 0 held_abc) = Inr ()
     \<and> USED_TEMP_DIRS (snd (dispose 0 held_abc)) = []
     \<and> heap (snd (dispose 0 held_abc)) = heap held_abc"
  proof -
    have h1: "heap held_abc 0 = Some \<lparr>namePrefix = ''worker'', path = ''/tmp/testcafe-tmp/worker-abc'',
         lockFile = Some \<lparr>lock_path = ''/tmp/testcafe-tmp/worker-abc/.testcafe-lockfile''\<rparr>\<rparr>"
      by (simp add: held_abc_value)
    have h2: "map_of (USED_TEMP_DIRS held_abc)
         (path \<lparr>namePrefix = ''worker'', path = ''/tmp/testcafe-tmp/worker-abc'',
         lockFile = Some \<lparr>lock_path = ''/tmp/testcafe-tmp/worker-abc/.testcafe-lockfile''\<rparr>\<rparr>) = Some 0"
      by (simp add: held_abc_value)
    have h3: "lockFile \<lparr>namePrefix = ''worker'', path = ''/tmp/testcafe-tmp/worker-abc'',
         lockFile = Some \<lparr>lock_path = ''/tmp/testcafe-tmp/worker-abc/.testcafe-lockfile''\<rparr>\<rparr>
         = Some \<lparr>lock_path = ''/tmp/testcafe-tmp/worker-abc/.testcafe-lockfile''\<rparr>"
      by simp
    show ?thesis
      using dispose_frame [OF h1 h2 h3] h1 h2 by (simp add: held_abc_value)
  qed
  have several: "heap held_two 0 = Some \<lparr>namePrefix = ''worker'', path = ''/tmp/testcafe-tmp/worker-abc'',
         lockFile = Some \<lparr>lock_path = ''/tmp/testcafe-tmp/worker-abc/.testcafe-lockfile''\<rparr>\<rparr>
     \<and> map_of (USED_TEMP_DIRS held_two) ''/tmp/testcafe-tmp/worker-abc'' = Some 0
     \<and> map_of (USED_TEMP_DIRS held_two) ''/tmp/testcafe-tmp/worker-x'' = Some 1
     \<and> fst (dispose 0 held_two) = Inr ()
     \<and> USED_TEMP_DIRS (snd (dispose 0 held_two)) = [(''/tmp/testcafe-tmp/worker-x'', 1)]
     \<and> map_of (USED_TEMP_DIRS (snd (dispose 0 held_two))) ''/tmp/testcafe-tmp/worker-abc'' = None
     \<and> map_of (USED_TEMP_DIRS (snd (dispose 0 held_two))) ''/tmp/testcafe-tmp/worker-x'' = Some 1
     \<and> heap (snd (dispose 0 held_two)) = heap held_two"
  proof -
    let ?obj = "\<lparr>namePrefix = ''worker'', path = ''/tmp/testcafe-tmp/worker-abc'',
         lockFile = Some \<lparr>lock_path = ''/tmp/testcafe-tmp/worker-abc/.testcafe-lockfile''\<rparr>\<rparr>"
    have h1: "heap held_two 0 = Some ?obj"
      by (simp add: held_two_value)
    have h2: "map_of (USED_TEMP_DIRS held_two) (path ?obj) = Some 0"
      by (simp add: held_two_value)
    have h3: "lockFile ?obj = Some \<lparr>lock_path = ''/tmp/testcafe-tmp/worker-abc/.testcafe-lockfile''\<rparr>"
      by simp
    have x: "map_of (USED_TEMP_DIRS held_two) ''/tmp/testcafe-tmp/worker-x'' = Some 1"
      by (simp add: held_two_value)
    have ne: "''/tmp/testcafe-tmp/worker-x'' \<noteq> path ?obj"
      by simp
    show ?thesis
      using dispose_frame [OF h1 h2 h3] h1 h2 x ne by (simp add: held_two_value)
  qed
  show ?thesis
    using single several by blast
qed


section \<open>Releasing all allocations\<close>

lemma dispose_registered_effect:
  assumes "heap st this = Some a" and "lockFile a = Some (LockFile_new (path a))"
      and "registered (USED_TEMP_DIRS st) (path a)"
  shows "\<exists>st'. dispose this st = (Inr (), st')
     \<and> heap st' = heap st \<and> USED_TEMP_DIRS st' = AList.delete (path a) (USED_TEMP_DIRS st)
     \<and> pid st' = pid st \<and> next_ref st' = next_ref st \<and> denied (fs st') = denied (fs st)
     \<and> (\<forall>q. node_at (fs st') q =
           (if q = lock_path (LockFile_new (path a)) \<and> is_file (node_at (fs st) q)
               \<and> Unlink q \<notin> denied (fs st)
            then None else node_at (fs st) q))"
proof -
  from LockFile_dispose_effect [of "LockFile_new (path a)" st] obtain st2
    where "LockFile_dispose (LockFile_new (path a)) st = (Inr (), st2)"
      and "heap st2 = heap st" "USED_TEMP_DIRS st2 = USED_TEMP_DIRS st" "pid st2 = pid st"
      "next_ref st2 = next_ref st" "denied (fs st2) = denied (fs st)"
      "\<forall>q. node_at (fs st2) q =
           (if q = lock_path (LockFile_new (path a)) \<and> is_file (node_at (fs st) q)
               \<and> Unlink q \<notin> denied (fs st)
            then None else node_at (fs st) q)"
    by blast
  with assms show ?thesis
    by (simp add: dispose_def deref_def and_then_def)
qed

lemma forEach_dispose_registry:
  "USED_TEMP_DIRS st = reg \<Longrightarrow> registry_ok st \<Longrightarrow>
     \<exists>st'. forEach_dispose (map snd reg) st = (Inr (), st')
       \<and> USED_TEMP_DIRS st' = [] \<and> heap st' = heap st \<and> pid st' = pid st
       \<and> next_ref st' = next_ref st \<and> denied (fs st') = denied (fs st)
       \<and> (\<forall>q. node_at (fs st') q =
             (if q \<in> (\<lambda>p. lock_path (LockFile_new p)) ` fst ` set reg
                 \<and> is_file (node_at (fs st) q) \<and> Unlink q \<notin> denied (fs st)
              then None else node_at (fs st) q))"
proof (induction reg arbitrary: st)
  case Nil
  then show ?case by simp
next
  case (Cons e reg)
  obtain p r where e: "e = (p, r)" by (cases e)
  from Cons.prems e obtain a where a: "heap st r = Some a" "path a = p"
      "lockFile a = Some (LockFile_new (path a))" and fresh: "p \<notin> fst ` set reg"
      and rest: "distinct (map fst reg)" "list_all (entry_ok st) reg"
    by (auto simp: registry_ok_def entry_ok_def split: option.splits)
  have reg_p: "registered (USED_TEMP_DIRS st) (path a)"
    using Cons.prems(1) e a(2) by (simp add: registered_def)
  from dispose_registered_effect [OF a(1) a(3) reg_p] obtain st1
    where d: "dispose r st = (Inr (), st1)"
      and fr: "heap st1 = heap st" "pid st1 = pid st" "next_ref st1 = next_ref st"
        "denied (fs st1) = denied (fs st)"
      and u1: "USED_TEMP_DIRS st1 = AList.delete (path a) (USED_TEMP_DIRS st)"
      and n1: "\<forall>q. node_at (fs st1) q =
           (if q = lock_path (LockFile_new (path a)) \<and> is_file (node_at (fs st) q)
               \<and> Unlink q \<notin> denied (fs st)
            then None else node_at (fs st) q)"
    by blast
  have u1': "USED_TEMP_DIRS st1 = reg"
    using u1 Cons.prems(1) e a(2) fresh by (simp add: AList.delete_id)
  have ok1: "registry_ok st1"
    using rest fr u1' by (simp add: registry_ok_def entry_ok_def list_all_iff)
  from Cons.IH [OF u1' ok1] obtain st' where
    f: "forEach_dispose (map snd reg) st1 = (Inr (), st')"
    and fr': "USED_TEMP_DIRS st' = []" "heap st' = heap st1" "pid st' = pid st1"
      "next_ref st' = next_ref st1" "denied (fs st') = denied (fs st1)"
    and n': "\<forall>q. node_at (fs st') q =
             (if q \<in> (\<lambda>p. lock_path (LockFile_new p)) ` fst ` set reg
                 \<and> is_file (node_at (fs st1) q) \<and> Unlink q \<notin> denied (fs st1)
              then None else node_at (fs st1) q)"
    by blast
  have "forEach_dispose (map snd (e # reg)) st = (Inr (), st')"
    using d f e by (simp add: and_then_def)
  moreover have "\<forall>q. node_at (fs st') q =
             (if q \<in> (\<lambda>p. lock_path (LockFile_new p)) ` fst ` set (e # reg)
                 \<and> is_file (node_at (fs st) q) \<and> Unlink q \<notin> denied (fs st)
              then None else node_at (fs st) q)"
    using n1 n' fr(4) e a(2) by (auto simp: is_file_def)
  ultimately show ?case
    using fr fr' by simp
qed

text \<open>
  C9 (the claim as stated fails). Process 1 holds \<^verbatim>\<open>worker-abc\<close> in a file system that
  refuses to remove its marker. \<open>disposeDirectories\<close> returns and leaves the registry empty,
  and the marker of the registered allocation is still on disk.
\<close>

theorem disposeDirectories_leaves_refused_marker:
  "registry_ok held_abc_stuck
   \<and> map_of (USED_TEMP_DIRS held_abc_stuck) (path_join TESTCAFE_TMP_DIRS_ROOT ''worker-abc'') = Some 0
   \<and> fst (disposeDirectories held_abc_stuck) = Inr ()
   \<and> USED_TEMP_DIRS (snd (disposeDirectories held_abc_stuck)) = []
   \<and> node_at (fs (snd (disposeDirectories held_abc_stuck)))
        (lock_path (LockFile_new (path_join TESTCAFE_TMP_DIRS_ROOT ''worker-abc''))) = Some (File 1)"
  by (simp add: held_abc_stuck_def held_abc_value registry_ok_def entry_ok_def run_defs)

text \<open>
  C9 (amended). In a state whose registry is well formed, \<open>disposeDirectories\<close> returns and
  leaves the registry empty. Of the file system it changes exactly this: the lock marker
  of every registered path is gone, unless its removal was refused; where the removal was
  not refused no file is left at the marker's path. Every directory that was on disk is
  still there, and the objects are untouched.
\<close>

theorem disposeDirectories_releases_all:
  assumes "registry_ok st"
  shows "fst (disposeDirectories st) = Inr ()
     \<and> USED_TEMP_DIRS (snd (disposeDirectories st)) = []
     \<and> (\<forall>p. map_of (USED_TEMP_DIRS st) p \<noteq> None
              \<and> Unlink (lock_path (LockFile_new p)) \<notin> denied (fs st) \<longrightarrow>
            \<not> is_file (node_at (fs (snd (disposeDirectories st))) (lock_path (LockFile_new p))))
     \<and> (\<forall>p. map_of (USED_TEMP_DIRS st) p \<noteq> None
              \<and> is_file (node_at (fs st) (lock_path (LockFile_new p)))
              \<and> Unlink (lock_path (LockFile_new p)) \<notin> denied (fs st) \<longrightarrow>
            node_at (fs (snd (disposeDirectories st))) (lock_path (LockFile_new p)) = None)
     \<and> (\<forall>q. node_at (fs st) q = Some Dir \<longrightarrow>
            node_at (fs (snd (disposeDirectories st))) q = Some Dir)
     \<and> (\<forall>q. q \<notin> (\<lambda>p. lock_path (LockFile_new p)) ` fst ` set (USED_TEMP_DIRS st) \<longrightarrow>
            node_at (fs (snd (disposeDirectories st))) q = node_at (fs st) q)
     \<and> heap (snd (disposeDirectories st)) = heap st"
proof -
  from forEach_dispose_registry [OF refl assms] obtain st' where
    f: "disposeDirectories st = (Inr (), st')"
    and fr: "USED_TEMP_DIRS st' = []" "heap st' = heap st"
    and n: "\<forall>q. node_at (fs st') q =
             (if q \<in> (\<lambda>p. lock_path (LockFile_new p)) ` fst ` set (USED_TEMP_DIRS st)
                 \<and> is_file (node_at (fs st) q) \<and> Unlink q \<notin> denied (fs st)
              then None else node_at (fs st) q)"
    by (auto simp: disposeDirectories_def)
  have key: "p \<in> fst ` set (USED_TEMP_DIRS st)" if "map_of (USED_TEMP_DIRS st) p \<noteq> None" for p
    using that by (auto simp: map_of_eq_None_iff)
  show ?thesis
    using f fr n key by (auto simp: is_file_def)
qed

theorem disposeDirectories_releases_all_witness:
  "registry_ok held_two
   \<and> fst (disposeDirectories held_two) = Inr ()
   \<and> USED_TEMP_DIRS (snd (disposeDirectories held_two)) = []
   \<and> nodes (fs (snd (disposeDirectories held_two)))
       = [(TESTCAFE_TMP_DIRS_ROOT, Dir), (path_join TESTCAFE_TMP_DIRS_ROOT ''worker-abc'', Dir),
          (path_join TESTCAFE_TMP_DIRS_ROOT ''worker-x'', Dir)]
   \<and> heap (snd (disposeDirectories held_two)) = heap held_two
   \<and> registry_ok held_abc_stuck
   \<and> USED_TEMP_DIRS (snd (disposeDirectories held_abc_stuck)) = []
   \<and> node_at (fs (snd (disposeDirectories held_abc_stuck)))
        (path_join TESTCAFE_TMP_DIRS_ROOT ''worker-abc'') = Some Dir"
proof -
  have ok: "registry_ok held_two"
    by (simp add: held_two_value registry_ok_def entry_ok_def LockFile_new_def path_join_def
          LOCKFILE_NAME_def)
  have ev: "nodes (fs (snd (disposeDirectories held_two)))
       = [(TESTCAFE_TMP_DIRS_ROOT, Dir), (path_join TESTCAFE_TMP_DIRS_ROOT ''worker-abc'', Dir),
          (path_join TESTCAFE_TMP_DIRS_ROOT ''worker-x'', Dir)]"
    by (simp add: held_two_value run_defs)
  have ok2: "registry_ok held_abc_stuck"
    by (simp add: held_abc_stuck_def held_abc_value registry_ok_def entry_ok_def LockFile_new_def
          path_join_def LOCKFILE_NAME_def)
  have dir: "node_at (fs held_abc_stuck) (path_join TESTCAFE_TMP_DIRS_ROOT ''worker-abc'') = Some Dir"
    by (simp add: held_abc_stuck_def held_abc_value run_defs)
  have a: "fst (disposeDirectories held_two) = Inr ()
      \<and> USED_TEMP_DIRS (snd (disposeDirectories held_two)) = []
      \<and> heap (snd (disposeDirectories held_two)) = heap held_two"
    using disposeDirectories_releases_all [OF ok] by blast
  have b: "USED_TEMP_DIRS (snd (disposeDirectories held_abc_stuck)) = []
      \<and> node_at (fs (snd (disposeDirectories held_abc_stuck)))
        (path_join TESTCAFE_TMP_DIRS_ROOT ''worker-abc'') = Some Dir"
    using disposeDirectories_releases_all [OF ok2] dir by blast
  show ?thesis
    using ok ev ok2 a b by blast
qed


section \<open>The invariant of the registry\<close>

lemma on_fs_ensureDir_holds:
  "on_fs (ensureDir d) st = (r, st1) \<Longrightarrow> holds st1 p = holds st p"
  using ensureDir_files [of d "fs st"]
  by (auto simp: on_fs_def holds_def split: sum.splits)

lemma tmpName_loop_frame:
  "tmpName_loop n dir pre st = (r, st2) \<Longrightarrow>
     heap st2 = heap st \<and> pid st2 = pid st \<and> next_ref st2 = next_ref st
     \<and> USED_TEMP_DIRS st2 = USED_TEMP_DIRS st \<and> fs st2 = fs st \<and> rng st2 = rng st"
proof (induction n arbitrary: st)
  case 0
  then show ?case by auto
next
  case (Suc n)
  show ?case
  proof (cases "node_at (fs st) (path_join dir (pre @ rng st (seed st))) = None")
    case True
    with Suc.prems show ?thesis by (auto simp: Let_def)
  next
    case False
    with Suc.prems have "tmpName_loop n dir pre (st\<lparr>seed := Suc (seed st)\<rparr>) = (r, st2)"
      by (simp add: Let_def)
    from Suc.IH [OF this] show ?thesis by simp
  qed
qed

lemma createNewTmpDir_to_await_frame:
  assumes "heap st this = Some self"
      and "createNewTmpDir_to_await this st = (r, st2)"
  shows "pid st2 = pid st \<and> next_ref st2 = next_ref st \<and> USED_TEMP_DIRS st2 = USED_TEMP_DIRS st
     \<and> (\<forall>p. holds st2 p = holds st p) \<and> (\<forall>r'. r' \<noteq> this \<longrightarrow> heap st2 r' = heap st r')
     \<and> (heap st2 this = Some self \<or> (\<exists>name. heap st2 this = Some (self\<lparr>path := name\<rparr>)))"
proof -
  obtain t st' where t: "tmpNameSync TESTCAFE_TMP_DIRS_ROOT (namePrefix self @ ''-'') st = (t, st')"
    by (cases "tmpNameSync TESTCAFE_TMP_DIRS_ROOT (namePrefix self @ ''-'') st")
  then have "tmpName_loop (Suc (Suc (Suc (Suc 0)))) TESTCAFE_TMP_DIRS_ROOT
      (namePrefix self @ ''-'') st = (t, st')"
    unfolding tmpNameSync_def .
  then have h': "heap st' = heap st" "pid st' = pid st" "next_ref st' = next_ref st"
      "USED_TEMP_DIRS st' = USED_TEMP_DIRS st" "fs st' = fs st"
    using tmpName_loop_frame by blast+
  show ?thesis
  proof (cases t)
    case (Inl e)
    with assms t have "st2 = st'"
      by (simp add: createNewTmpDir_to_await_def deref_def and_then_def)
    with h' assms(1) show ?thesis
      by (simp add: holds_def)
  next
    case (Inr name)
    let ?st3 = "assign this (\<lambda>self. self\<lparr>path := name\<rparr>) st'"
    from assms t Inr have o: "on_fs (ensureDir name) ?st3 = (r, st2)"
      by (simp add: createNewTmpDir_to_await_def deref_def and_then_def)
    from on_fs_ensureDir_heap [OF o] on_fs_ensureDir_holds [OF o] h' assms(1)
    show ?thesis
      by (auto simp: assign_def holds_def)
  qed
qed

lemma holds_heap [simp]: "holds (st\<lparr>heap := h\<rparr>) p = holds st p"
  by (simp add: holds_def)

lemma holds_registry [simp]: "holds (st\<lparr>USED_TEMP_DIRS := u\<rparr>) p = holds st p"
  by (simp add: holds_def)

lemma LockFile_init_holds:
  "holds (snd (LockFile_init (LockFile_new d) st)) p =
     (holds st p \<or> (p = d \<and> fst (LockFile_init (LockFile_new d) st) = Inr True))"
  by (auto simp: LockFile_init_cases holds_def node_at_append split: option.splits)

lemma claim_dir_holds:
  "holds (claim_dir this d st) p = (holds st p \<or> (p = d \<and> node_at (fs st) (lock_path (LockFile_new d)) = None))"
  by (auto simp: claim_dir_def holds_def node_at_append split: option.splits)

lemma init_shape:
  assumes "heap st this = Some self"
  shows "pid (snd (init this st)) = pid st \<and> next_ref (snd (init this st)) = next_ref st
     \<and> (\<forall>r. r \<noteq> this \<longrightarrow> heap (snd (init this st)) r = heap st r)
     \<and> (isl (fst (init this st)) \<longrightarrow>
          USED_TEMP_DIRS (snd (init this st)) = USED_TEMP_DIRS st
          \<and> (\<forall>p. holds (snd (init this st)) p = holds st p)
          \<and> (heap (snd (init this st)) this = Some self
             \<or> (\<exists>name. heap (snd (init this st)) this = Some (self\<lparr>path := name\<rparr>))))
     \<and> (\<not> isl (fst (init this st)) \<longrightarrow>
          (\<exists>d. heap (snd (init this st)) this
                   = Some (self\<lparr>path := d, lockFile := Some (LockFile_new d)\<rparr>)
               \<and> USED_TEMP_DIRS (snd (init this st)) = AList.update d this (USED_TEMP_DIRS st)
               \<and> (\<forall>p. p \<noteq> d \<longrightarrow> holds (snd (init this st)) p = holds st p)
               \<and> (holds st d \<longrightarrow> holds (snd (init this st)) d)))"
proof (cases "ensureDir TESTCAFE_TMP_DIRS_ROOT (fs st)")
  case (Inl e)
  then have "init this st = (Inl e, st)"
    by (simp add: init_def on_fs_def and_then_def)
  with assms show ?thesis by simp
next
  case (Inr w)
  let ?st1 = "st\<lparr>fs := w\<rparr>"
  have o: "on_fs (ensureDir TESTCAFE_TMP_DIRS_ROOT) st = (Inr (), ?st1)"
    using Inr by (simp add: on_fs_def)
  have h1: "heap ?st1 this = Some self" using assms by simp
  have ho1: "holds ?st1 p = holds st p" for p
    by (rule on_fs_ensureDir_holds [OF o])
  show ?thesis
  proof (cases "readDir TESTCAFE_TMP_DIRS_ROOT w")
    case (Inl e)
    then have "init this st = (Inl e, ?st1)"
      using o h1 by (simp add: init_def and_then_def getTmpDirsList_def deref_def)
    with assms ho1 show ?thesis by simp
  next
    case rd: (Inr tmpDirNames)
    obtain names where g: "getTmpDirsList this ?st1 = (Inr names, ?st1)"
      using rd h1 by (simp add: getTmpDirsList_def deref_def and_then_def)
    show ?thesis
    proof (cases "find (acquires ?st1) names")
      case (Some n)
      let ?d = "path_join TESTCAFE_TMP_DIRS_ROOT n"
      from find_first [OF Some] have "acquires ?st1 n" by blast
      then have li: "LockFile_init (LockFile_new ?d) ?st1 =
              (Inr True, ?st1\<lparr>fs := (fs ?st1)\<lparr>nodes := nodes (fs ?st1) @
                 [(lock_path (LockFile_new ?d), File (pid ?st1))]\<rparr>\<rparr>)"
        by (simp add: acquires_def LockFile_init_cases split: if_splits)
      have res: "init this st = (Inr (), claim_dir this ?d ?st1)"
        using h1 by (simp add: init_after_listing [OF o g] findFreeTmpDir_find Some li
            and_then_def register_def deref_def assign_def claim_dir_def)
      have "heap (claim_dir this ?d ?st1) this
              = Some (self\<lparr>path := ?d, lockFile := Some (LockFile_new ?d)\<rparr>)"
        using assms by (simp add: claim_dir_def)
      moreover have "USED_TEMP_DIRS (claim_dir this ?d ?st1) = AList.update ?d this (USED_TEMP_DIRS st)"
        by (simp add: claim_dir_def)
      moreover have "\<forall>p. p \<noteq> ?d \<longrightarrow> holds (claim_dir this ?d ?st1) p = holds st p"
        using ho1 by (simp add: claim_dir_holds)
      moreover have "holds st ?d \<longrightarrow> holds (claim_dir this ?d ?st1) ?d"
        using ho1 by (simp add: claim_dir_holds)
      moreover have "pid (claim_dir this ?d ?st1) = pid st"
          "next_ref (claim_dir this ?d ?st1) = next_ref st"
          "\<forall>r. r \<noteq> this \<longrightarrow> heap (claim_dir this ?d ?st1) r = heap st r"
        by (simp_all add: claim_dir_def)
      ultimately show ?thesis
        unfolding res by (simp del: path_join_inject2) blast
    next
      case None
      obtain r st2 where t: "createNewTmpDir_to_await this ?st1 = (r, st2)"
        by (cases "createNewTmpDir_to_await this ?st1")
      note fr2 = createNewTmpDir_to_await_frame [OF h1 t]
      show ?thesis
      proof (cases r)
        case (Inl e)
        with t None have "init this st = (Inl e, st2)"
          by (simp add: init_after_listing [OF o g] findFreeTmpDir_find and_then_def
              createNewTmpDir_def)
        with fr2 ho1 show ?thesis by simp
      next
        case (Inr u)
        with t have t': "createNewTmpDir_to_await this ?st1 = (Inr (), st2)" by simp
        from createNewTmpDir_to_await_result [OF h1 t'] obtain name
          where h2: "heap st2 this = Some (self\<lparr>path := name\<rparr>)"
          by auto
        let ?lf = "LockFile_new name"
        let ?st3 = "st2\<lparr>heap := (heap st2)(this \<mapsto> self\<lparr>path := name, lockFile := Some ?lf\<rparr>)\<rparr>"
        let ?st4 = "snd (LockFile_init ?lf ?st3)"
        have cn: "createNewTmpDir this ?st1 = (Inr (), ?st4)"
          using createNewTmpDir_from_await_result [OF h2] t'
          by (simp add: createNewTmpDir_def and_then_def)
        have f4: "heap ?st4 = (heap st2)(this \<mapsto> self\<lparr>path := name, lockFile := Some ?lf\<rparr>)"
            "USED_TEMP_DIRS ?st4 = USED_TEMP_DIRS st2" "pid ?st4 = pid st2"
            "next_ref ?st4 = next_ref st2"
          using LockFile_init_frame [of ?lf ?st3] by simp_all
        have res: "init this st =
            (Inr (), ?st4\<lparr>USED_TEMP_DIRS := AList.update name this (USED_TEMP_DIRS ?st4)\<rparr>)"
          using f4(1) by (simp add: init_after_listing [OF o g] findFreeTmpDir_find None cn
              and_then_def register_def deref_def)
        have ho4: "holds ?st4 p = (holds st p \<or> (p = name \<and> fst (LockFile_init ?lf ?st3) = Inr True))" for p
          using fr2 ho1 by (simp add: LockFile_init_holds)
        have "heap ?st4 this = Some (self\<lparr>path := name, lockFile := Some ?lf\<rparr>)"
          using f4 by simp
        moreover have "USED_TEMP_DIRS ?st4 = USED_TEMP_DIRS st" using f4 fr2 by simp
        moreover have "\<forall>p. p \<noteq> name \<longrightarrow> holds ?st4 p = holds st p"
          using ho4 by simp
        moreover have "holds st name \<longrightarrow> holds ?st4 name"
          using ho4 by simp
        moreover have "pid ?st4 = pid st" "next_ref ?st4 = next_ref st"
            "\<forall>r. r \<noteq> this \<longrightarrow> heap ?st4 r = heap st r"
          using f4 fr2 by simp_all
        ultimately show ?thesis
          unfolding res by simp blast
      qed
    qed
  qed
qed


lemma createDirectory_init:
  "snd (createDirectory prefix st) = snd (init (next_ref st) (snd (TempDirectory_new prefix st)))
   \<and> isl (fst (createDirectory prefix st))
       = isl (fst (init (next_ref st) (snd (TempDirectory_new prefix st))))
   \<and> (\<forall>this. fst (createDirectory prefix st) = Inr this \<longrightarrow> this = next_ref st)"
  by (cases "init (next_ref st) (snd (TempDirectory_new prefix st))")
     (auto simp: createDirectory_def TempDirectory_new_def and_then_def split: sum.splits)

lemma createDirectory_shape:
  "pid (snd (createDirectory prefix st)) = pid st
   \<and> next_ref (snd (createDirectory prefix st)) = Suc (next_ref st)
   \<and> (\<forall>r. r \<noteq> next_ref st \<longrightarrow> heap (snd (createDirectory prefix st)) r = heap st r)
   \<and> (isl (fst (createDirectory prefix st)) \<longrightarrow>
        USED_TEMP_DIRS (snd (createDirectory prefix st)) = USED_TEMP_DIRS st
        \<and> (\<forall>p. holds (snd (createDirectory prefix st)) p = holds st p)
        \<and> (heap (snd (createDirectory prefix st)) (next_ref st)
             = Some \<lparr>namePrefix = prefix, path = [], lockFile = None\<rparr>
           \<or> (\<exists>name. heap (snd (createDirectory prefix st)) (next_ref st)
                 = Some \<lparr>namePrefix = prefix, path = name, lockFile = None\<rparr>)))
   \<and> (\<not> isl (fst (createDirectory prefix st)) \<longrightarrow>
        (\<exists>d. heap (snd (createDirectory prefix st)) (next_ref st)
                   = Some \<lparr>namePrefix = prefix, path = d, lockFile = Some (LockFile_new d)\<rparr>
             \<and> USED_TEMP_DIRS (snd (createDirectory prefix st))
                 = AList.update d (next_ref st) (USED_TEMP_DIRS st)
             \<and> (\<forall>p. p \<noteq> d \<longrightarrow> holds (snd (createDirectory prefix st)) p = holds st p)
             \<and> (holds st d \<longrightarrow> holds (snd (createDirectory prefix st)) d)))"
proof -
  let ?st0 = "snd (TempDirectory_new prefix st)"
  have h0: "heap ?st0 (next_ref st) = Some \<lparr>namePrefix = prefix, path = [], lockFile = None\<rparr>"
    by (simp add: TempDirectory_new_def)
  have f0: "pid ?st0 = pid st" "next_ref ?st0 = Suc (next_ref st)"
      "USED_TEMP_DIRS ?st0 = USED_TEMP_DIRS st" "\<And>p. holds ?st0 p = holds st p"
      "\<And>r. r \<noteq> next_ref st \<Longrightarrow> heap ?st0 r = heap st r"
    by (simp_all add: TempDirectory_new_def holds_def)
  have c: "snd (createDirectory prefix st) = snd (init (next_ref st) ?st0)"
      "isl (fst (createDirectory prefix st)) = isl (fst (init (next_ref st) ?st0))"
    using createDirectory_init [of prefix st] by simp_all
  show ?thesis
    unfolding c using init_shape [OF h0] by (simp add: f0)
qed


















section \<open>Releasing an allocation twice\<close>

lemma dispose_keeps:
  "heap (snd (dispose tmpDir st)) = heap st \<and> next_ref (snd (dispose tmpDir st)) = next_ref st
   \<and> (map_of (USED_TEMP_DIRS (snd (dispose tmpDir st))) d \<noteq> None \<longrightarrow>
        map_of (USED_TEMP_DIRS st) d \<noteq> None)"
proof (cases "heap st tmpDir")
  case None
  then show ?thesis by (simp add: dispose_def deref_def and_then_def)
next
  case (Some a)
  show ?thesis
  proof (cases "lockFile a")
    case None
    with Some show ?thesis by (simp add: dispose_def deref_def and_then_def)
  next
    case lf: (Some lf)
    obtain st2 where st2: "LockFile_dispose lf st = (Inr (), st2)"
      using LockFile_dispose_returns [of lf st] by (cases "LockFile_dispose lf st") auto
    from LockFile_dispose_frame [OF st2] st2 Some lf show ?thesis
      by (auto simp: dispose_def deref_def and_then_def delete_conv')
  qed
qed

lemma forEach_dispose_keeps:
  "heap (snd (forEach_dispose rs st)) = heap st
   \<and> next_ref (snd (forEach_dispose rs st)) = next_ref st
   \<and> (map_of (USED_TEMP_DIRS (snd (forEach_dispose rs st))) d \<noteq> None \<longrightarrow>
        map_of (USED_TEMP_DIRS st) d \<noteq> None)"
proof (induction rs arbitrary: st)
  case Nil
  show ?case by simp
next
  case (Cons r rs)
  obtain x st1 where d: "dispose r st = (x, st1)" by (cases "dispose r st")
  have k: "heap st1 = heap st" "next_ref st1 = next_ref st"
      "map_of (USED_TEMP_DIRS st1) d \<noteq> None \<longrightarrow> map_of (USED_TEMP_DIRS st) d \<noteq> None"
    using dispose_keeps [of r st d] d by simp_all
  show ?case
  proof (cases x)
    case (Inl e)
    with d k show ?thesis by (simp add: and_then_def)
  next
    case (Inr u)
    with d k Cons.IH [of st1] show ?thesis by (simp add: and_then_def)
  qed
qed

lemma run_call_keeps:
  assumes "heap st this = Some a" and "this < next_ref st"
      and "map_of (USED_TEMP_DIRS st) (path a) = None"
      and "\<not> allocates (path a) c st"
  shows "heap (run_call c st) this = Some a \<and> this < next_ref (run_call c st)
     \<and> map_of (USED_TEMP_DIRS (run_call c st)) (path a) = None"
proof (cases c)
  case (Allocate prefix)
  let ?st' = "snd (createDirectory prefix st)"
  note sh = createDirectory_shape [of prefix st]
  have ne: "this \<noteq> next_ref st" using assms(2) by simp
  have h: "heap ?st' this = Some a" "this < next_ref ?st'"
    using sh ne assms(1,2) by simp_all
  have "map_of (USED_TEMP_DIRS ?st') (path a) = None"
  proof (cases "isl (fst (createDirectory prefix st))")
    case True
    with sh assms(3) show ?thesis by simp
  next
    case False
    with sh obtain d where
      hd: "heap ?st' (next_ref st) = Some \<lparr>namePrefix = prefix, path = d, lockFile = Some (LockFile_new d)\<rparr>"
      and u: "USED_TEMP_DIRS ?st' = AList.update d (next_ref st) (USED_TEMP_DIRS st)"
      by auto
    from False obtain r where r: "fst (createDirectory prefix st) = Inr r"
      by (cases "fst (createDirectory prefix st)") auto
    with createDirectory_init [of prefix st] have "r = next_ref st" by simp
    with r have "createDirectory prefix st = (Inr (next_ref st), ?st')"
      by (cases "createDirectory prefix st") simp
    with assms(4) Allocate hd have "d \<noteq> path a" by auto
    with u assms(3) show ?thesis by (simp add: update_conv')
  qed
  with h Allocate show ?thesis by simp
next
  case (Dispose tmpDir)
  with dispose_keeps [of tmpDir st "path a"] assms show ?thesis by auto
next
  case DisposeAll
  with forEach_dispose_keeps [of "map snd (USED_TEMP_DIRS st)" st "path a"] assms
  show ?thesis by (auto simp: disposeDirectories_def)
qed

lemma run_calls_keep:
  assumes "heap st this = Some a" and "this < next_ref st"
      and "map_of (USED_TEMP_DIRS st) (path a) = None"
      and "calls_avoid (path a) cs st"
  shows "heap (run_calls cs st) this = Some a
     \<and> map_of (USED_TEMP_DIRS (run_calls cs st)) (path a) = None"
  using assms
proof (induction cs arbitrary: st)
  case Nil
  then show ?case by simp
next
  case (Cons c cs)
  from Cons.prems(4) have na: "\<not> allocates (path a) c st"
    and rest: "calls_avoid (path a) cs (run_call c st)"
    by simp_all
  from run_call_keeps [OF Cons.prems(1,2,3) na] Cons.IH [OF _ _ _ rest]
  show ?case by simp
qed

lemma dispose_unregisters:
  assumes "heap st this = Some a" and "path a \<notin> set Object_prototype_keys"
      and "fst (dispose this st) = Inr ()"
  shows "map_of (USED_TEMP_DIRS (snd (dispose this st))) (path a) = None"
proof (cases "registered (USED_TEMP_DIRS st) (path a)")
  case False
  with assms(1) show ?thesis
    by (simp add: dispose_def deref_def and_then_def registered_def)
next
  case True
  show ?thesis
  proof (cases "lockFile a")
    case None
    with True assms(1,3) show ?thesis by (simp add: dispose_def deref_def and_then_def)
  next
    case (Some lf)
    obtain st2 where st2: "LockFile_dispose lf st = (Inr (), st2)"
      using LockFile_dispose_returns [of lf st] by (cases "LockFile_dispose lf st") auto
    with True Some assms(1) show ?thesis
      by (simp add: dispose_def deref_def and_then_def delete_conv')
  qed
qed

lemma dispose_after_calls:
  assumes "heap st this = Some a" and "this < next_ref st"
      and "path a \<notin> set Object_prototype_keys"
      and "fst (dispose this st) = Inr ()"
      and "calls_avoid (path a) cs (snd (dispose this st))"
  shows "dispose this (run_calls cs (snd (dispose this st)))
           = (Inr (), run_calls cs (snd (dispose this st)))"
proof -
  let ?st1 = "snd (dispose this st)"
  have k: "heap ?st1 this = Some a" "this < next_ref ?st1"
    using dispose_keeps [of this st] assms(1,2) by simp_all
  have u: "map_of (USED_TEMP_DIRS ?st1) (path a) = None"
    by (rule dispose_unregisters [OF assms(1,3,4)])
  from run_calls_keep [OF k u assms(5)] assms(3) show ?thesis
    by (simp add: dispose_def deref_def and_then_def registered_def)
qed

text \<open>
  C6 (the claim as stated fails). Process 1 allocated \<^verbatim>\<open>worker-abc\<close> (object 0), disposed of
  it, and allocated again: the new allocation (object 1) claimed \<^verbatim>\<open>worker-abc\<close>, is
  registered under it and holds its lock. A second \<open>dispose\<close> of object 0 now returns,
  removes the registry entry of object 1 and removes its lock marker: it is no no-op.
\<close>

theorem second_dispose_releases_reallocated_directory:
  "fst (dispose 0 held_abc) = Inr ()
   \<and> fst (createDirectory ''worker'' (snd (dispose 0 held_abc))) = Inr 1
   \<and> map_of (USED_TEMP_DIRS reallocated) (path_join TESTCAFE_TMP_DIRS_ROOT ''worker-abc'') = Some 1
   \<and> holds reallocated (path_join TESTCAFE_TMP_DIRS_ROOT ''worker-abc'')
   \<and> map_option path (heap reallocated 0) = Some (path_join TESTCAFE_TMP_DIRS_ROOT ''worker-abc'')
   \<and> fst (dispose 0 reallocated) = Inr ()
   \<and> USED_TEMP_DIRS (snd (dispose 0 reallocated)) = []
   \<and> USED_TEMP_DIRS (snd (dispose 0 reallocated)) \<noteq> USED_TEMP_DIRS reallocated
   \<and> node_at (fs (snd (dispose 0 reallocated)))
        (path_join (path_join TESTCAFE_TMP_DIRS_ROOT ''worker-abc'') LOCKFILE_NAME) = None"
  by (simp add: holds_def reallocated_value held_abc_value run_defs)

text \<open>
  C6 (amended). Lock release never throws, changes nothing when the marker is already
  gone, and a second release changes nothing more. A call of \<open>dispose\<close> that returned leaves
  a state in which calling \<open>dispose\<close> on the same allocation again returns and changes
  nothing; and so it is after any run of allocations and releases in between, as long as
  none of these allocations returned the directory of the disposed allocation. On an
  allocation whose path is not registered \<open>dispose\<close> changes nothing; an allocation that
  was only constructed is such a one.
\<close>

theorem release_idempotent:
  "fst (LockFile_dispose lf st) = Inr ()
   \<and> (node_at (fs st) (lock_path lf) = None \<longrightarrow> LockFile_dispose lf st = (Inr (), st))
   \<and> LockFile_dispose lf (snd (LockFile_dispose lf st)) = LockFile_dispose lf st
   \<and> (dispose this st = (Inr (), st1) \<longrightarrow> dispose this st1 = (Inr (), st1))
   \<and> (heap st this = Some a \<and> this < next_ref st \<and> path a \<notin> set Object_prototype_keys
        \<and> fst (dispose this st) = Inr () \<and> calls_avoid (path a) cs (snd (dispose this st)) \<longrightarrow>
        dispose this (run_calls cs (snd (dispose this st)))
          = (Inr (), run_calls cs (snd (dispose this st))))
   \<and> (heap st this = Some a \<and> \<not> registered (USED_TEMP_DIRS st) (path a) \<longrightarrow>
        dispose this st = (Inr (), st))
   \<and> (\<not> registered (USED_TEMP_DIRS st) [] \<longrightarrow>
        dispose (fst (TempDirectory_new prefix st)) (snd (TempDirectory_new prefix st))
          = (Inr (), snd (TempDirectory_new prefix st)))"
  using release_basic [of lf st this st1 a prefix] dispose_after_calls [of st this a cs]
  by blast

theorem release_idempotent_witness:
  "node_at (fs (fresh_process 1 rng_xy pool_abc))
     (lock_path (LockFile_new (path_join TESTCAFE_TMP_DIRS_ROOT ''worker-abc''))) = None
   \<and> LockFile_dispose (LockFile_new (path_join TESTCAFE_TMP_DIRS_ROOT ''worker-abc''))
        (fresh_process 1 rng_xy pool_abc) = (Inr (), fresh_process 1 rng_xy pool_abc)
   \<and> dispose 0 held_abc = (Inr (), snd (dispose 0 held_abc))
   \<and> dispose 0 (snd (dispose 0 held_abc)) = (Inr (), snd (dispose 0 held_abc))
   \<and> map_option path (heap held_two 0) = Some (path_join TESTCAFE_TMP_DIRS_ROOT ''worker-abc'')
   \<and> path_join TESTCAFE_TMP_DIRS_ROOT ''worker-abc'' \<notin> set Object_prototype_keys
   \<and> fst (dispose 0 held_two) = Inr ()
   \<and> calls_avoid (path_join TESTCAFE_TMP_DIRS_ROOT ''worker-abc'')
        [Allocate ''other'', Dispose 1] disposed_first
   \<and> USED_TEMP_DIRS (run_calls [Allocate ''other'', Dispose 1] disposed_first)
       = [(path_join TESTCAFE_TMP_DIRS_ROOT ''other-xy'', 2)]
   \<and> dispose 0 (run_calls [Allocate ''other'', Dispose 1] disposed_first)
       = (Inr (), run_calls [Allocate ''other'', Dispose 1] disposed_first)
   \<and> \<not> registered (USED_TEMP_DIRS (snd (dispose 0 held_abc)))
         (path_join TESTCAFE_TMP_DIRS_ROOT ''worker-abc'')
   \<and> \<not> registered (USED_TEMP_DIRS held_abc) []
   \<and> dispose (fst (TempDirectory_new ''worker'' held_abc))
        (snd (TempDirectory_new ''worker'' held_abc))
       = (Inr (), snd (TempDirectory_new ''worker'' held_abc))"
  (is "?a1 \<and> ?a2 \<and> ?b1 \<and> ?b2 \<and> ?c1 \<and> ?c2 \<and> ?c3 \<and> ?c4 \<and> ?c5 \<and> ?c6 \<and> ?d1 \<and> ?e1 \<and> ?e2")
proof -
  let ?abc = "path_join TESTCAFE_TMP_DIRS_ROOT ''worker-abc''"
  let ?obj = "\<lparr>namePrefix = ''worker'', path = ''/tmp/testcafe-tmp/worker-abc'',
       lockFile = Some \<lparr>lock_path = ''/tmp/testcafe-tmp/worker-abc/.testcafe-lockfile''\<rparr>\<rparr>"
  have abc: "?abc = ''/tmp/testcafe-tmp/worker-abc''"
    by (simp add: run_defs)
  have a1: ?a1 by (simp add: run_defs)
  have a2: ?a2
    using release_basic a1 by blast
  have b1: ?b1 by (simp add: held_abc_value run_defs)
  have c1: ?c1 by (simp add: held_two_value run_defs)
  have c2: ?c2 by (simp add: run_defs)
  have c3: ?c3 by (simp add: held_two_value run_defs)
  have c4: ?c4
    by (simp add: disposed_first_value run_defs)
  have c5: ?c5
    unfolding later_value by (simp add: run_defs)
  have d1: ?d1 by (simp add: held_abc_value run_defs)
  have e1: ?e1 by (simp add: held_abc_value run_defs)
  have h: "heap held_two 0 = Some ?obj" by (simp add: held_two_value)
  have n: "(0::nat) < next_ref held_two" by (simp add: held_two_value)
  have c2': "path ?obj \<notin> set Object_prototype_keys"
    using c2 by (simp add: abc)
  have c4': "calls_avoid (path ?obj) [Allocate ''other'', Dispose 1] (snd (dispose 0 held_two))"
    using c4 by (simp add: abc disposed_first_def)
  have c6: ?c6
    using release_idempotent
            [where st = held_two and this = 0 and a = ?obj
               and cs = "[Allocate ''other'', Dispose 1]"]
          h n c2' c3 c4'
    unfolding disposed_first_def by blast
  have b2: ?b2
    using release_idempotent [where st = held_abc and this = 0 and ?st1.0 = "snd (dispose 0 held_abc)"] b1
    by blast
  have e2: ?e2
    using release_idempotent [where st = held_abc and prefix = "''worker''"] e1 by blast
  show ?thesis
    using a1 a2 b1 b2 c1 c2 c3 c4 c5 c6 d1 e1 e2 by blast
qed


section \<open>Two processes on one pool\<close>

lemma init_split: "init this st = and_then (init_to_await this st) (init_from_await this)"
  by (auto simp: init_def init_to_await_def init_from_await_def and_then_def createNewTmpDir_def
           split: prod.splits sum.splits)

lemma p1_suspended_value:
  "p1_suspended =
     \<lparr>pid = 1,
      heap = [0 \<mapsto> \<lparr>namePrefix = ''worker'', path = ''/tmp/testcafe-tmp/worker-x'',
                     lockFile = None\<rparr>],
      next_ref = 1, USED_TEMP_DIRS = [], rng = rng_xy, seed = 1,
      fs = \<lparr>nodes = [(''/tmp/testcafe-tmp'', Dir), (''/tmp/testcafe-tmp/worker-x'', Dir)],
            denied = {}\<rparr>\<rparr>"
  by (simp add: p1_suspended_def init_to_await_def new_worker_in_value pool_empty_def run_defs)

lemma p2_done_value:
  "p2_done =
     \<lparr>pid = 2,
      heap = [0 \<mapsto> \<lparr>namePrefix = ''worker'', path = ''/tmp/testcafe-tmp/worker-x'',
                     lockFile = Some \<lparr>lock_path = ''/tmp/testcafe-tmp/worker-x/.testcafe-lockfile''\<rparr>\<rparr>],
      next_ref = 1, USED_TEMP_DIRS = [(''/tmp/testcafe-tmp/worker-x'', 0)], rng = rng_xy, seed = 0,
      fs = \<lparr>nodes = [(''/tmp/testcafe-tmp'', Dir), (''/tmp/testcafe-tmp/worker-x'', Dir),
                      (''/tmp/testcafe-tmp/worker-x/.testcafe-lockfile'', File 2)],
            denied = {}\<rparr>\<rparr>"
  by (simp add: p2_done_def p1_suspended_value run_defs)

lemma p1_done_value:
  "p1_done =
     \<lparr>pid = 1,
      heap = [0 \<mapsto> \<lparr>namePrefix = ''worker'', path = ''/tmp/testcafe-tmp/worker-x'',
                     lockFile = Some \<lparr>lock_path = ''/tmp/testcafe-tmp/worker-x/.testcafe-lockfile''\<rparr>\<rparr>],
      next_ref = 1, USED_TEMP_DIRS = [(''/tmp/testcafe-tmp/worker-x'', 0)], rng = rng_xy, seed = 1,
      fs = \<lparr>nodes = [(''/tmp/testcafe-tmp'', Dir), (''/tmp/testcafe-tmp/worker-x'', Dir),
                      (''/tmp/testcafe-tmp/worker-x/.testcafe-lockfile'', File 2)],
            denied = {}\<rparr>\<rparr>"
  by (simp add: p1_done_def init_from_await_def p1_suspended_value p2_done_value run_defs)

text \<open>
  C1 (the code at a schedule where it departs from the claim). In the schedule above both
  allocations succeed, both processes register the directory \<^verbatim>\<open>worker-x\<close>, and the two
  allocations have the same path. The marker was created by process 2; the lock attempt
  of process 1 on its own fresh directory failed and its result was not looked at.
\<close>

theorem two_processes_allocate_same_directory:
  "fst (init_to_await 0 (new_worker_in pool_empty)) = Inr False
   \<and> fst (createDirectory ''worker'' (fresh_process 2 rng_xy (fs p1_suspended))) = Inr 0
   \<and> fst (init_from_await 0 False (p1_suspended\<lparr>fs := fs p2_done\<rparr>)) = Inr ()
   \<and> map_option path (heap p1_done 0) = Some (path_join TESTCAFE_TMP_DIRS_ROOT ''worker-x'')
   \<and> map_option path (heap p2_done 0) = Some (path_join TESTCAFE_TMP_DIRS_ROOT ''worker-x'')
   \<and> map_of (USED_TEMP_DIRS p1_done) (path_join TESTCAFE_TMP_DIRS_ROOT ''worker-x'') = Some 0
   \<and> map_of (USED_TEMP_DIRS p2_done) (path_join TESTCAFE_TMP_DIRS_ROOT ''worker-x'') = Some 0
   \<and> pid p1_done \<noteq> pid p2_done
   \<and> node_at (fs p1_done) (path_join (path_join TESTCAFE_TMP_DIRS_ROOT ''worker-x'') LOCKFILE_NAME)
       = Some (File 2)"
  by (simp add: p1_done_value p2_done_value p1_suspended_value init_to_await_def
        init_from_await_def new_worker_in_value pool_empty_def run_defs)

end
